theory Spec2Isabelle
  imports Main
begin

section \<open>Data model\<close>

text \<open>
  The lifecycle controller of \<^verbatim>\<open>buildMCPServer\<close> and the HTTP request handlers,
  embedded with explicit state passing. Everything the code does to the outside world
  (events emitted, log lines, calls on the protocol engine, on the HTTP server and on a
  transport) is appended to a trace, oldest entry first. What an outside call answers
  is read from an environment \<open>env\<close>, so every theorem holds for every behaviour of the
  collaborators.
\<close>

type_synonym error = string

text \<open>\<^verbatim>\<open>AnyTool\<close> of \<^verbatim>\<open>types.ts\<close>; schemas and handler are opaque here.\<close>

record AnyTool =
  name :: string
  description :: string
  inputSchema :: string
  outputSchema :: string
  handler :: nat

datatype transport_kind = Stdio | Http

datatype McpServerConnectionInfo =
    ConnHttp string nat
  | ConnStdio

fun transport_of :: "McpServerConnectionInfo \<Rightarrow> transport_kind" where
  "transport_of (ConnHttp h p) = Http"
| "transport_of ConnStdio = Stdio"

text \<open>Requests and responses are identified by a number; so are errors by their text.\<close>

datatype McpServerEvents =
    serverStarting
  | serverStartError error
  | serverReady McpServerConnectionInfo "AnyTool list"
  | serverStopping
  | serverStopped
  | requestReceived nat
  | requestFailed nat error
  | requestCompleted nat nat

record McpServerOptions =
  opt_name :: string
  opt_version :: string
  opt_description :: "string option"
  opt_tools :: "AnyTool list option"
  opt_transport :: transport_kind
  opt_port :: "nat option"

text \<open>The value of \<^verbatim>\<open>createJsonRpcError\<close>; \<open>id = None\<close> is JSON \<^verbatim>\<open>null\<close>.\<close>

record JsonRpcError =
  jsonrpc :: string
  error_code :: int
  error_message :: string
  id :: "nat option"

datatype level = Info | Warn | Error

datatype transport_ref = StdioServerTransport | StreamableHTTPServerTransport nat

text \<open>
  One entry per effect. A call on a collaborator is entered when it is made, whatever it
  answers; a constructor is entered once the object exists.
\<close>

datatype action =
    Emit McpServerEvents
  | Log level string string
  | NewMcpServer nat
  | RegisterTool nat AnyTool
  | Connect nat transport_ref
  | CloseMcpServer nat
  | FindFreePort
  | Listen nat string
  | CloseHttpServer nat
  | NewTransport nat
  | CloseTransport nat
  | HandleRequest nat nat
  | Respond nat nat JsonRpcError

text \<open>
  An awaited promise settles with a value, settles with an error, or never settles.
  A Node-style call that takes a completion callback invokes it, throws at once, or
  never invokes it.
\<close>

datatype 'a promise = Fulfilled 'a | Rejected error | Pending

datatype callback = Called | Throws error | NeverCalled

text \<open>
  What \<^verbatim>\<open>expressApp.listen(port, host, callback)\<close> does with the callback: the socket is
  bound and the callback invoked; the bind fails and the callback is invoked with the
  error (Express 5 registers the callback for the server's \<^verbatim>\<open>error\<close> event as well); the
  call throws at once; or the callback is never invoked (a bind failure under Express 4,
  where nothing listens for the \<^verbatim>\<open>error\<close> event).
\<close>

datatype listening = Listening | ListenError error | ListenThrows error | NoCallback

text \<open>
  The protocol engine object, as far as this code can tell: its identity, the server
  info it was constructed with, and the tools whose \<^verbatim>\<open>registerTool\<close> call returned.
\<close>

record McpServer =
  engine_id :: nat
  info_name :: string
  info_version :: string
  info_description :: string
  engine_tools :: "AnyTool list"

datatype handler_ref =
    McpRequestHandler nat
  | UnsupportedMethodHandler string

text \<open>The Express application: its routes, as (method, path, handler), in the order installed.\<close>

type_synonym express_app = "(string \<times> string \<times> handler_ref) list"

record Server =
  http_id :: nat
  http_port :: nat
  http_host :: string
  http_app :: express_app

text \<open>
  The collaborators. \<open>on_emit ev = Some e\<close>: a listener of \<open>ev\<close> throws \<open>e\<close> (the
  emitter does not catch it). \<open>on_registerTool done t\<close>: what the engine answers to
  \<^verbatim>\<open>registerTool\<close> of \<open>t\<close> when \<open>done\<close> are registered already.
\<close>

record env =
  on_emit :: "McpServerEvents \<Rightarrow> error option"
  on_new_server :: "error option"
  on_registerTool :: "AnyTool list \<Rightarrow> AnyTool \<Rightarrow> error option"
  on_connect :: "unit promise"
  on_findFreePort :: "nat promise"
  on_listen :: "nat \<Rightarrow> listening"
  on_http_close :: callback
  on_server_close :: "unit promise"
  on_new_transport :: "error option"
  on_handleRequest :: "bool \<times> unit promise"
  on_transport_close :: "unit promise"

text \<open>The variables closed over by \<^verbatim>\<open>buildMCPServer\<close>, the trace and the object allocator.\<close>

record controller =
  mcpServer :: "McpServer option"
  httpServer :: "Server option"
  registeredTools :: "AnyTool list"
  isServerRunning :: bool
  connectionInfo :: "McpServerConnectionInfo option"
  trace :: "action list"
  next_id :: nat

section \<open>The lifecycle controller\<close>

definition createJsonRpcError :: "int \<Rightarrow> string \<Rightarrow> JsonRpcError" where
  "createJsonRpcError code message =
     \<lparr>jsonrpc = ''2.0'', error_code = code, error_message = message, id = None\<rparr>"

definition trace_add :: "action \<Rightarrow> controller \<Rightarrow> controller" where
  "trace_add a s = s\<lparr>trace := trace s @ [a]\<rparr>"

text \<open>\<^verbatim>\<open>events.emit\<close>: the event is delivered; a listener's exception reaches the caller.\<close>

definition emit :: "env \<Rightarrow> McpServerEvents \<Rightarrow> controller \<Rightarrow> error option \<times> controller" where
  "emit env ev s = (on_emit env ev, trace_add (Emit ev) s)"

text \<open>
  \<^verbatim>\<open>pushToolsToServer\<close>: one info line and one \<^verbatim>\<open>registerTool\<close> call per tool, in
  order; the first call that throws ends the loop. (The log message ends with the
  logger library's ellipsis icon, left out here.)
\<close>

fun pushToolsToServer ::
  "env \<Rightarrow> McpServer \<Rightarrow> AnyTool list \<Rightarrow> action list \<Rightarrow> error option \<times> McpServer \<times> action list" where
  "pushToolsToServer env server [] tr = (None, server, tr)"
| "pushToolsToServer env server (tool # tools) tr =
     (let tr1 = tr @ [Log Info ''Registering tool'' (name tool),
                      RegisterTool (engine_id server) tool]
      in case on_registerTool env (engine_tools server) tool of
           Some e \<Rightarrow> (Some e, server, tr1)
         | None \<Rightarrow>
             pushToolsToServer env
               (server\<lparr>engine_tools := engine_tools server @ [tool]\<rparr>) tools tr1)"

definition buildMCPServer :: "McpServerOptions \<Rightarrow> controller" where
  "buildMCPServer options =
     \<lparr>mcpServer = None, httpServer = None,
      registeredTools = (case opt_tools options of None \<Rightarrow> [] | Some ts \<Rightarrow> ts),
      isServerRunning = False, connectionInfo = None, trace = [], next_id = 0\<rparr>"

definition registerTools :: "env \<Rightarrow> AnyTool list \<Rightarrow> controller \<Rightarrow> error option \<times> controller" where
  "registerTools env tools s =
     (case mcpServer s of
        Some server \<Rightarrow>
          (case pushToolsToServer env server tools (trace s) of
             (Some e, server', tr) \<Rightarrow> (Some e, s\<lparr>mcpServer := Some server', trace := tr\<rparr>)
           | (None, server', tr) \<Rightarrow>
               (None, s\<lparr>mcpServer := Some server', trace := tr,
                        registeredTools := registeredTools s @ tools\<rparr>))
      | None \<Rightarrow> (None, s\<lparr>registeredTools := registeredTools s @ tools\<rparr>))"

text \<open>The \<^verbatim>\<open>"stdio"\<close> case of \<^verbatim>\<open>start\<close>.\<close>

definition start_stdio :: "env \<Rightarrow> McpServer \<Rightarrow> controller \<Rightarrow> unit promise \<times> controller" where
  "start_stdio env server s =
     (let s1 = trace_add (Connect (engine_id server) StdioServerTransport) s
      in case on_connect env of
           Rejected e \<Rightarrow> (Rejected e, s1)
         | Pending \<Rightarrow> (Pending, s1)
         | Fulfilled u \<Rightarrow>
             (let s2 = s1\<lparr>connectionInfo := Some ConnStdio\<rparr>;
                  s3 = s2\<lparr>isServerRunning := True\<rparr>
              in case emit env (serverReady ConnStdio (registeredTools s3)) s3 of
                   (Some e, s4) \<Rightarrow> (Rejected e, s4)
                 | (None, s4) \<Rightarrow> (Fulfilled (), s4)))"

text \<open>The routes installed on the Express application, in the order of the source.\<close>

definition mcp_routes :: "nat \<Rightarrow> express_app" where
  "mcp_routes engine =
     [(''POST'', ''/mcp'', McpRequestHandler engine),
      (''GET'', ''/mcp'', UnsupportedMethodHandler ''GET''),
      (''DELETE'', ''/mcp'', UnsupportedMethodHandler ''DELETE'')]"

text \<open>
  The \<^verbatim>\<open>"http"\<close> case of \<^verbatim>\<open>start\<close>. The promise around \<^verbatim>\<open>listen\<close> has no reject path:
  it is rejected only when \<^verbatim>\<open>listen\<close> throws inside the executor, it resolves when the
  callback runs to its end, and otherwise it never settles (also when a listener of
  \<^verbatim>\<open>serverReady\<close> throws inside the callback, before \<^verbatim>\<open>resolve\<close>). The callback is
  written without a parameter: invoked with a bind error it does what it does when the
  socket is bound. The server object returned by \<^verbatim>\<open>listen\<close> is assigned to \<^verbatim>\<open>httpServer\<close>
  whenever the call returns.
\<close>

definition start_http ::
  "McpServerOptions \<Rightarrow> env \<Rightarrow> McpServer \<Rightarrow> controller \<Rightarrow> unit promise \<times> controller" where
  "start_http options env server s =
     (case (case opt_port options of
              Some p \<Rightarrow> (Fulfilled p, s)
            | None \<Rightarrow> (on_findFreePort env, trace_add FindFreePort s)) of
        (Rejected e, s1) \<Rightarrow> (Rejected e, s1)
      | (Pending, s1) \<Rightarrow> (Pending, s1)
      | (Fulfilled actualPort, s1) \<Rightarrow>
          (let expressApp = mcp_routes (engine_id server);
               s2 = trace_add (Listen actualPort ''localhost'') s1
           in case on_listen env actualPort of
                ListenThrows e \<Rightarrow> (Rejected e, s2)
              | NoCallback \<Rightarrow>
                  (Pending,
                   s2\<lparr>httpServer := Some \<lparr>http_id = next_id s2, http_port = actualPort,
                                          http_host = ''localhost'', http_app = expressApp\<rparr>,
                      next_id := Suc (next_id s2)\<rparr>)
              | _ \<Rightarrow>
                  (let s3 = s2\<lparr>httpServer := Some \<lparr>http_id = next_id s2, http_port = actualPort,
                                          http_host = ''localhost'', http_app = expressApp\<rparr>,
                               next_id := Suc (next_id s2)\<rparr>;
                       ci = ConnHttp ''localhost'' actualPort;
                       s4 = s3\<lparr>connectionInfo := Some ci\<rparr>;
                       s5 = s4\<lparr>isServerRunning := True\<rparr>
                   in case emit env (serverReady ci (registeredTools s5)) s5 of
                        (Some e, s6) \<Rightarrow> (Pending, s6)
                      | (None, s6) \<Rightarrow> (Fulfilled (), s6))))"

text \<open>The body of the \<^verbatim>\<open>try\<close> block of \<^verbatim>\<open>start\<close>.\<close>

definition start_try :: "McpServerOptions \<Rightarrow> env \<Rightarrow> controller \<Rightarrow> unit promise \<times> controller" where
  "start_try options env s =
     (case on_new_server env of
        Some e \<Rightarrow> (Rejected e, s)
      | None \<Rightarrow>
          (let server = \<lparr>engine_id = next_id s, info_name = opt_name options,
                         info_version = opt_version options,
                         info_description =
                           (case opt_description options of
                              None \<Rightarrow> opt_name options @ '' MCP server''
                            | Some d \<Rightarrow> if d = [] then opt_name options @ '' MCP server'' else d),
                         engine_tools = []\<rparr>;
               s1 = trace_add (NewMcpServer (next_id s))
                      (s\<lparr>mcpServer := Some server, next_id := Suc (next_id s)\<rparr>)
           in case pushToolsToServer env server (registeredTools s1) (trace s1) of
                (Some e, server', tr) \<Rightarrow> (Rejected e, s1\<lparr>mcpServer := Some server', trace := tr\<rparr>)
              | (None, server', tr) \<Rightarrow>
                  (let s2 = s1\<lparr>mcpServer := Some server', trace := tr\<rparr>
                   in case opt_transport options of
                        Stdio \<Rightarrow> start_stdio env server' s2
                      | Http \<Rightarrow> start_http options env server' s2)))"

definition start :: "McpServerOptions \<Rightarrow> env \<Rightarrow> controller \<Rightarrow> unit promise \<times> controller" where
  "start options env s =
     (if isServerRunning s
      then (Fulfilled (), trace_add (Log Warn ''Server is already running'' '''') s)
      else case emit env serverStarting s of
             (Some e, s1) \<Rightarrow> (Rejected e, s1)
           | (None, s1) \<Rightarrow>
               (case start_try options env s1 of
                  (Rejected e, s2) \<Rightarrow>
                    (case emit env (serverStartError e) s2 of
                       (Some e', s3) \<Rightarrow> (Rejected e', s3)
                     | (None, s3) \<Rightarrow> (Rejected e, s3))
                | (Pending, s2) \<Rightarrow> (Pending, s2)
                | (Fulfilled u, s2) \<Rightarrow> (Fulfilled (), s2)))"

text \<open>The three steps inside the \<^verbatim>\<open>try\<close> block of \<^verbatim>\<open>stop\<close>, in the order of the source.\<close>

definition stop_http :: "env \<Rightarrow> controller \<Rightarrow> unit promise \<times> controller" where
  "stop_http env s =
     (case httpServer s of
        None \<Rightarrow> (Fulfilled (), s)
      | Some h \<Rightarrow>
          (let s1 = trace_add (CloseHttpServer (http_id h)) s
           in case on_http_close env of
                Throws e \<Rightarrow> (Rejected e, s1)
              | NeverCalled \<Rightarrow> (Pending, s1)
              | Called \<Rightarrow> (Fulfilled (), s1\<lparr>httpServer := None\<rparr>)))"

definition stop_mcp :: "env \<Rightarrow> controller \<Rightarrow> unit promise \<times> controller" where
  "stop_mcp env s =
     (case mcpServer s of
        None \<Rightarrow> (Fulfilled (), s)
      | Some m \<Rightarrow>
          (let s1 = trace_add (CloseMcpServer (engine_id m)) s
           in case on_server_close env of
                Rejected e \<Rightarrow> (Rejected e, s1)
              | Pending \<Rightarrow> (Pending, s1)
              | Fulfilled u \<Rightarrow> (Fulfilled (), s1\<lparr>mcpServer := None\<rparr>)))"

definition stop_finish :: "env \<Rightarrow> controller \<Rightarrow> unit promise \<times> controller" where
  "stop_finish env s =
     (let s1 = s\<lparr>isServerRunning := False\<rparr>;
          s2 = s1\<lparr>connectionInfo := None\<rparr>
      in case emit env serverStopped s2 of
           (Some e, s3) \<Rightarrow> (Rejected e, s3)
         | (None, s3) \<Rightarrow> (Fulfilled (), s3))"

definition stop_try :: "env \<Rightarrow> controller \<Rightarrow> unit promise \<times> controller" where
  "stop_try env s =
     (case stop_http env s of
        (Fulfilled u, s1) \<Rightarrow>
          (case stop_mcp env s1 of
             (Fulfilled v, s2) \<Rightarrow> stop_finish env s2
           | (Rejected e, s2) \<Rightarrow> (Rejected e, s2)
           | (Pending, s2) \<Rightarrow> (Pending, s2))
      | (Rejected e, s1) \<Rightarrow> (Rejected e, s1)
      | (Pending, s1) \<Rightarrow> (Pending, s1))"

definition stop :: "env \<Rightarrow> controller \<Rightarrow> unit promise \<times> controller" where
  "stop env s =
     (if \<not> isServerRunning s
      then (Fulfilled (), trace_add (Log Warn ''Server is not running'' '''') s)
      else case emit env serverStopping s of
             (Some e, s1) \<Rightarrow> (Rejected e, s1)
           | (None, s1) \<Rightarrow>
               (case stop_try env s1 of
                  (Rejected e, s2) \<Rightarrow> (Rejected e, trace_add (Log Error ''Error stopping server'' e) s2)
                | (Pending, s2) \<Rightarrow> (Pending, s2)
                | (Fulfilled u, s2) \<Rightarrow> (Fulfilled (), s2)))"

definition restart :: "McpServerOptions \<Rightarrow> env \<Rightarrow> controller \<Rightarrow> unit promise \<times> controller" where
  "restart options env s =
     (case stop env s of
        (Fulfilled u, s1) \<Rightarrow> start options env s1
      | (Rejected e, s1) \<Rightarrow> (Rejected e, s1)
      | (Pending, s1) \<Rightarrow> (Pending, s1))"

definition isRunning :: "controller \<Rightarrow> bool" where
  "isRunning s = isServerRunning s"

record status =
  running :: bool
  tools :: "AnyTool list"
  status_connectionInfo :: "McpServerConnectionInfo option"

definition getStatus :: "controller \<Rightarrow> status" where
  "getStatus s =
     \<lparr>running = isServerRunning s, tools = registeredTools s,
      status_connectionInfo = connectionInfo s\<rparr>"

text \<open>
  A caller's sequence of calls on one controller, each with what the collaborators
  answer during it. An exception or a promise that never settles does not end the
  sequence: the caller can go on using the controller.
\<close>

datatype call = Start | Stop | Restart | RegisterTools "AnyTool list"

fun perform :: "McpServerOptions \<Rightarrow> call \<times> env \<Rightarrow> controller \<Rightarrow> controller" where
  "perform options (Start, env) s = snd (start options env s)"
| "perform options (Stop, env) s = snd (stop env s)"
| "perform options (Restart, env) s = snd (restart options env s)"
| "perform options (RegisterTools ts, env) s = snd (registerTools env ts s)"

fun run :: "McpServerOptions \<Rightarrow> (call \<times> env) list \<Rightarrow> controller \<Rightarrow> controller" where
  "run options [] s = s"
| "run options (c # cs) s = run options cs (perform options c s)"


text \<open>How often the listening socket was bound: the \<^verbatim>\<open>listen\<close> calls in the trace.\<close>

fun is_listen :: "action \<Rightarrow> bool" where
  "is_listen (Listen p h) = True"
| "is_listen a = False"

definition binds :: "controller \<Rightarrow> nat" where
  "binds s = length (filter is_listen (trace s))"

text \<open>
  The invariant of the controller: while the running flag is set, the connection info is
  there and names the transport of the options.
\<close>

definition running_has_info :: "McpServerOptions \<Rightarrow> controller \<Rightarrow> bool" where
  "running_has_info options s =
     (isServerRunning s \<longrightarrow>
        (case connectionInfo s of None \<Rightarrow> False | Some ci \<Rightarrow> transport_of ci = opt_transport options))"

section \<open>Concrete servers\<close>

definition echo :: AnyTool where
  "echo = \<lparr>name = ''echo'', description = ''Echoes its input'', inputSchema = ''value'',
           outputSchema = ''value'', handler = 0\<rparr>"

definition quiet :: env where
  "quiet = \<lparr>on_emit = (\<lambda>ev. None), on_new_server = None, on_registerTool = (\<lambda>done t. None),
            on_connect = Fulfilled (), on_findFreePort = Fulfilled 49152,
            on_listen = (\<lambda>p. Listening), on_http_close = Called, on_server_close = Fulfilled (),
            on_new_transport = None, on_handleRequest = (True, Fulfilled ()),
            on_transport_close = Fulfilled ()\<rparr>"

definition http_4000 :: McpServerOptions where
  "http_4000 = \<lparr>opt_name = ''demo'', opt_version = ''1.0.0'', opt_description = None,
                opt_tools = Some [echo], opt_transport = Http, opt_port = Some 4000\<rparr>"

definition stdio_demo :: McpServerOptions where
  "stdio_demo = \<lparr>opt_name = ''demo'', opt_version = ''1.0.0'', opt_description = None,
                 opt_tools = Some [echo], opt_transport = Stdio, opt_port = None\<rparr>"

definition demo_engine :: "AnyTool list \<Rightarrow> McpServer" where
  "demo_engine ts = \<lparr>engine_id = 0, info_name = ''demo'', info_version = ''1.0.0'',
                      info_description = ''demo MCP server'', engine_tools = ts\<rparr>"

definition http_running :: controller where
  "http_running =
     \<lparr>mcpServer = Some (demo_engine [echo]),
      httpServer = Some \<lparr>http_id = 1, http_port = 4000, http_host = ''localhost'',
                          http_app = mcp_routes 0\<rparr>,
      registeredTools = [echo], isServerRunning = True,
      connectionInfo = Some (ConnHttp ''localhost'' 4000),
      trace = [Emit serverStarting, NewMcpServer 0, Log Info ''Registering tool'' ''echo'',
               RegisterTool 0 echo, Listen 4000 ''localhost'',
               Emit (serverReady (ConnHttp ''localhost'' 4000) [echo])],
      next_id = 2\<rparr>"

definition stdio_running :: controller where
  "stdio_running =
     \<lparr>mcpServer = Some (demo_engine [echo]), httpServer = None,
      registeredTools = [echo], isServerRunning = True,
      connectionInfo = Some ConnStdio,
      trace = [Emit serverStarting, NewMcpServer 0, Log Info ''Registering tool'' ''echo'',
               RegisterTool 0 echo, Connect 0 StdioServerTransport,
               Emit (serverReady ConnStdio [echo])],
      next_id = 1\<rparr>"

section \<open>The HTTP request handlers\<close>

text \<open>
  The handlers serve many requests on one event loop: a handler runs until its next
  \<^verbatim>\<open>await\<close>, and goes on when the awaited promise settles. So each handler is a list of
  phases, one per stretch of code between two suspension points, over a world shared by
  all requests: the trace (each entry with the request whose handler made it), the
  allocator of transport objects, and per request the variables of its handler.
\<close>

datatype handler_pc = AwaitConnect | AwaitHandle | Returned | Threw error

datatype teardown_pc = Open | AwaitTransportClose | AwaitServerClose | Completed

record request_ctx =
  ctx_transport :: "nat option"
  close_registered :: bool
  headersSent :: bool
  replied :: "(nat \<times> JsonRpcError) option"
  handler_pc :: handler_pc
  teardown_pc :: teardown_pc

record http_world =
  log :: "(nat \<times> action) list"
  next_transport :: nat
  requests :: "nat \<Rightarrow> request_ctx option"

definition say :: "nat \<Rightarrow> action \<Rightarrow> http_world \<Rightarrow> http_world" where
  "say r a w = w\<lparr>log := log w @ [(r, a)]\<rparr>"

definition upd_ctx :: "nat \<Rightarrow> (request_ctx \<Rightarrow> request_ctx) \<Rightarrow> http_world \<Rightarrow> http_world" where
  "upd_ctx r f w =
     (case requests w r of
        None \<Rightarrow> w
      | Some c \<Rightarrow> w\<lparr>requests := (requests w)(r \<mapsto> f c)\<rparr>)"

definition new_ctx :: request_ctx where
  "new_ctx = \<lparr>ctx_transport = None, close_registered = False, headersSent = False,
              replied = None, handler_pc = Returned, teardown_pc = Open\<rparr>"

text \<open>\<^verbatim>\<open>response.status(code).json(body)\<close>: the response is sent, headers included.\<close>

definition respond :: "nat \<Rightarrow> nat \<Rightarrow> JsonRpcError \<Rightarrow> http_world \<Rightarrow> http_world" where
  "respond r code body w =
     upd_ctx r (\<lambda>c. c\<lparr>headersSent := True, replied := Some (code, body)\<rparr>)
       (say r (Respond r code body) w)"






text \<open>The \<^verbatim>\<open>catch\<close> block of the POST handler.\<close>

definition handler_catch :: "env \<Rightarrow> nat \<Rightarrow> error \<Rightarrow> http_world \<Rightarrow> http_world" where
  "handler_catch env r e w =
     (let w1 = say r (Emit (requestFailed r e)) w
      in case on_emit env (requestFailed r e) of
           Some e' \<Rightarrow> upd_ctx r (\<lambda>c. c\<lparr>handler_pc := Threw e'\<rparr>) w1
         | None \<Rightarrow>
             (let w2 = (case requests w1 r of
                          None \<Rightarrow> w1
                        | Some c \<Rightarrow>
                            if \<not> headersSent c
                            then respond r 500
                                   (createJsonRpcError (- 32603) ''Internal server error'') w1
                            else w1)
              in upd_ctx r (\<lambda>c. c\<lparr>handler_pc := Returned\<rparr>) w2))"

text \<open>
  From the arrival of a POST to the first \<^verbatim>\<open>await\<close>: the received event, the new
  transport, the close handler on the response, and the call of \<^verbatim>\<open>server.connect\<close>.
\<close>

definition handler_begin :: "nat \<Rightarrow> env \<Rightarrow> nat \<Rightarrow> http_world \<Rightarrow> http_world" where
  "handler_begin server env r w =
     (let w0 = w\<lparr>requests := (requests w)(r \<mapsto> new_ctx)\<rparr>;
          w1 = say r (Emit (requestReceived r)) w0
      in case on_emit env (requestReceived r) of
           Some e \<Rightarrow> handler_catch env r e w1
         | None \<Rightarrow>
             (case on_new_transport env of
                Some e \<Rightarrow> handler_catch env r e w1
              | None \<Rightarrow>
                  (let t = next_transport w1;
                       w2 = say r (NewTransport t) (w1\<lparr>next_transport := Suc t\<rparr>);
                       w3 = upd_ctx r (\<lambda>c. c\<lparr>ctx_transport := Some t\<rparr>) w2;
                       w4 = upd_ctx r (\<lambda>c. c\<lparr>close_registered := True\<rparr>) w3;
                       w5 = say r (Connect server (StreamableHTTPServerTransport t)) w4
                   in upd_ctx r (\<lambda>c. c\<lparr>handler_pc := AwaitConnect\<rparr>) w5)))"

text \<open>\<^verbatim>\<open>await server.connect(transport)\<close> has settled.\<close>

definition handler_connected :: "env \<Rightarrow> nat \<Rightarrow> http_world \<Rightarrow> http_world" where
  "handler_connected env r w =
     (case requests w r of
        None \<Rightarrow> w
      | Some c \<Rightarrow>
          if handler_pc c \<noteq> AwaitConnect then w
          else (case on_connect env of
                  Pending \<Rightarrow> w
                | Rejected e \<Rightarrow> handler_catch env r e w
                | Fulfilled u \<Rightarrow>
                    (case ctx_transport c of
                       None \<Rightarrow> w
                     | Some t \<Rightarrow>
                         upd_ctx r (\<lambda>c. c\<lparr>handler_pc := AwaitHandle\<rparr>)
                           (say r (HandleRequest t r) w))))"

text \<open>
  \<^verbatim>\<open>await transport.handleRequest(request, response, request.body)\<close> has settled; the
  transport may have sent the response headers by then.
\<close>

definition handler_handled :: "env \<Rightarrow> nat \<Rightarrow> http_world \<Rightarrow> http_world" where
  "handler_handled env r w =
     (case requests w r of
        None \<Rightarrow> w
      | Some c \<Rightarrow>
          if handler_pc c \<noteq> AwaitHandle then w
          else (let w1 = (if fst (on_handleRequest env)
                          then upd_ctx r (\<lambda>c. c\<lparr>headersSent := True\<rparr>) w else w)
                in case snd (on_handleRequest env) of
                     Pending \<Rightarrow> w1
                   | Rejected e \<Rightarrow> handler_catch env r e w1
                   | Fulfilled u \<Rightarrow> upd_ctx r (\<lambda>c. c\<lparr>handler_pc := Returned\<rparr>) w1))"

text \<open>One POST, from its arrival until the handler's promise settles or waits for ever.\<close>

definition createMcpRequestHandler :: "nat \<Rightarrow> env \<Rightarrow> nat \<Rightarrow> http_world \<Rightarrow> http_world" where
  "createMcpRequestHandler server env r w =
     handler_handled env r (handler_connected env r (handler_begin server env r w))"

text \<open>
  The close handler. The response emits \<^verbatim>\<open>close\<close> once; the handler calls
  \<^verbatim>\<open>transport.close()\<close>, and the rest of the promise chain follows as the calls settle.
\<close>

definition close_event :: "nat \<Rightarrow> http_world \<Rightarrow> http_world" where
  "close_event r w =
     (case requests w r of
        None \<Rightarrow> w
      | Some c \<Rightarrow>
          if close_registered c \<and> teardown_pc c = Open
          then (case ctx_transport c of
                  None \<Rightarrow> w
                | Some t \<Rightarrow>
                    upd_ctx r (\<lambda>c. c\<lparr>teardown_pc := AwaitTransportClose\<rparr>)
                      (say r (CloseTransport t) w))
          else w)"

text \<open>
  \<^verbatim>\<open>.catch\<close> and \<^verbatim>\<open>.finally\<close>: a listener that throws in either rejects the promise
  of the chain, which nobody awaits; the callback of \<^verbatim>\<open>.finally\<close> runs all the same.
\<close>

definition teardown_finish :: "nat \<Rightarrow> error option \<Rightarrow> http_world \<Rightarrow> http_world" where
  "teardown_finish r failure w =
     (let w1 = (case failure of
                  None \<Rightarrow> w
                | Some e \<Rightarrow> say r (Emit (requestFailed r e)) w)
      in upd_ctx r (\<lambda>c. c\<lparr>teardown_pc := Completed\<rparr>)
           (say r (Emit (requestCompleted r r)) w1))"

definition transport_closed :: "nat \<Rightarrow> env \<Rightarrow> nat \<Rightarrow> http_world \<Rightarrow> http_world" where
  "transport_closed server env r w =
     (case requests w r of
        None \<Rightarrow> w
      | Some c \<Rightarrow>
          if teardown_pc c \<noteq> AwaitTransportClose then w
          else (case on_transport_close env of
                  Pending \<Rightarrow> w
                | Rejected e \<Rightarrow> teardown_finish r (Some e) w
                | Fulfilled u \<Rightarrow>
                    upd_ctx r (\<lambda>c. c\<lparr>teardown_pc := AwaitServerClose\<rparr>)
                      (say r (CloseMcpServer server) w)))"

definition server_closed :: "env \<Rightarrow> nat \<Rightarrow> http_world \<Rightarrow> http_world" where
  "server_closed env r w =
     (case requests w r of
        None \<Rightarrow> w
      | Some c \<Rightarrow>
          if teardown_pc c \<noteq> AwaitServerClose then w
          else (case on_server_close env of
                  Pending \<Rightarrow> w
                | Rejected e \<Rightarrow> teardown_finish r (Some e) w
                | Fulfilled u \<Rightarrow> teardown_finish r None w))"

text \<open>The connection of request \<open>r\<close> closes, and the chain runs as far as it gets.\<close>

definition on_close :: "nat \<Rightarrow> env \<Rightarrow> nat \<Rightarrow> http_world \<Rightarrow> http_world" where
  "on_close server env r w = server_closed env r (transport_closed server env r (close_event r w))"

text \<open>
  Requests in flight together: a schedule names, step by step, the request whose code
  runs next, the phase, and what the collaborators answer in it. A phase whose turn it is
  not changes nothing, and a request object arrives once.
\<close>

datatype phase = Arrive | ConnectSettled | HandleSettled | CloseEvent | TransportClosed | ServerClosed

fun exec :: "nat \<Rightarrow> nat \<times> phase \<times> env \<Rightarrow> http_world \<Rightarrow> http_world" where
  "exec server (r, Arrive, env) w =
     (case requests w r of None \<Rightarrow> handler_begin server env r w | Some c \<Rightarrow> w)"
| "exec server (r, ConnectSettled, env) w = handler_connected env r w"
| "exec server (r, HandleSettled, env) w = handler_handled env r w"
| "exec server (r, CloseEvent, env) w = close_event r w"
| "exec server (r, TransportClosed, env) w = transport_closed server env r w"
| "exec server (r, ServerClosed, env) w = server_closed env r w"

fun schedule :: "nat \<Rightarrow> (nat \<times> phase \<times> env) list \<Rightarrow> http_world \<Rightarrow> http_world" where
  "schedule server [] w = w"
| "schedule server (x # xs) w = schedule server xs (exec server x w)"

definition no_requests :: http_world where
  "no_requests = \<lparr>log = [], next_transport = 0, requests = (\<lambda>r. None)\<rparr>"

text \<open>
  The objects an action is a call on: the object constructed, the receiver of a method
  call, and an object passed to it. The protocol-handling context of a request is what
  the code of the request constructed, was bound to, or called.
\<close>

datatype obj = TransportObj nat | EngineObj nat

fun uses :: "action \<Rightarrow> obj list" where
  "uses (NewTransport t) = [TransportObj t]"
| "uses (Connect e (StreamableHTTPServerTransport t)) = [EngineObj e, TransportObj t]"
| "uses (Connect e StdioServerTransport) = [EngineObj e]"
| "uses (HandleRequest t r) = [TransportObj t]"
| "uses (CloseTransport t) = [TransportObj t]"
| "uses (CloseMcpServer e) = [EngineObj e]"
| "uses a = []"




text \<open>The actions of one request in a trace, in order.\<close>

definition actions_of :: "nat \<Rightarrow> (nat \<times> action) list \<Rightarrow> action list" where
  "actions_of r l = map snd (filter (\<lambda>x. fst x = r) l)"

definition context_of :: "nat \<Rightarrow> http_world \<Rightarrow> obj list" where
  "context_of r w = concat (map uses (actions_of r (log w)))"


text \<open>The events of one request, in order, and how often its completed event is among them.\<close>

fun event_of :: "action \<Rightarrow> McpServerEvents list" where
  "event_of (Emit ev) = [ev]"
| "event_of a = []"

definition events_of :: "nat \<Rightarrow> http_world \<Rightarrow> McpServerEvents list" where
  "events_of r w = concat (map event_of (actions_of r (log w)))"

definition completions :: "nat \<Rightarrow> http_world \<Rightarrow> nat" where
  "completions r w = count_list (events_of r w) (requestCompleted r r)"

text \<open>
  What the teardown chain of a request reports before the completed event: the error of
  the first close step that failed.
\<close>

definition teardown_failure :: "env \<Rightarrow> error option" where
  "teardown_failure env =
     (case on_transport_close env of
        Rejected e \<Rightarrow> Some e
      | Pending \<Rightarrow> None
      | Fulfilled u \<Rightarrow>
          (case on_server_close env of
             Rejected e \<Rightarrow> Some e
           | Pending \<Rightarrow> None
           | Fulfilled v \<Rightarrow> None))"

definition teardown_settles :: "env \<Rightarrow> bool" where
  "teardown_settles env =
     (case on_transport_close env of
        Rejected e \<Rightarrow> True
      | Pending \<Rightarrow> False
      | Fulfilled u \<Rightarrow> on_server_close env \<noteq> Pending)"

section \<open>Concrete collaborators\<close>

definition engine_close_fails :: env where
  "engine_close_fails = quiet\<lparr>on_server_close := Rejected ''close failed''\<rparr>"

definition ready_listener_throws :: env where
  "ready_listener_throws =
     quiet\<lparr>on_emit := (\<lambda>ev. case ev of serverReady ci ts \<Rightarrow> Some ''listener failed'' | _ \<Rightarrow> None)\<rparr>"

definition connect_fails :: env where
  "connect_fails = quiet\<lparr>on_connect := Rejected ''connect failed''\<rparr>"

text \<open>
  Port 4000 is held by another process: the bind fails with \<^verbatim>\<open>EADDRINUSE\<close>, and the
  framework hands the error to the callback of \<^verbatim>\<open>listen\<close>, or never invokes it. And a
  \<^verbatim>\<open>listen\<close> call that throws at once.
\<close>

definition port_occupied :: env where
  "port_occupied = quiet\<lparr>on_listen := (\<lambda>p. if p = 4000 then ListenError ''EADDRINUSE'' else Listening)\<rparr>"

definition port_occupied_silent :: env where
  "port_occupied_silent = quiet\<lparr>on_listen := (\<lambda>p. if p = 4000 then NoCallback else Listening)\<rparr>"

definition listen_throws :: env where
  "listen_throws = quiet\<lparr>on_listen := (\<lambda>p. ListenThrows ''listen failed'')\<rparr>"

definition rejects_duplicates :: env where
  "rejects_duplicates =
     quiet\<lparr>on_registerTool :=
             (\<lambda>done t. if name t \<in> set (map name done) then Some ''already registered'' else None)\<rparr>"

definition received_listener_throws :: env where
  "received_listener_throws =
     quiet\<lparr>on_emit := (\<lambda>ev. case ev of requestReceived r \<Rightarrow> Some ''listener failed'' | _ \<Rightarrow> None)\<rparr>"

definition failed_listener_throws :: env where
  "failed_listener_throws =
     quiet\<lparr>on_connect := Rejected ''connect failed'',
           on_emit := (\<lambda>ev. case ev of requestFailed r e \<Rightarrow> Some ''listener failed'' | _ \<Rightarrow> None)\<rparr>"

definition ping :: AnyTool where
  "ping = \<lparr>name = ''ping'', description = ''Answers pong'', inputSchema = ''none'',
           outputSchema = ''value'', handler = 1\<rparr>"

text \<open>The HTTP server of \<open>http_running\<close> after a \<open>stop\<close> that went through.\<close>

definition http_stopped :: controller where
  "http_stopped =
     \<lparr>mcpServer = None, httpServer = None, registeredTools = [echo], isServerRunning = False,
      connectionInfo = None,
      trace = [Emit serverStarting, NewMcpServer 0, Log Info ''Registering tool'' ''echo'',
               RegisterTool 0 echo, Listen 4000 ''localhost'',
               Emit (serverReady (ConnHttp ''localhost'' 4000) [echo]),
               Emit serverStopping, CloseHttpServer 1, CloseMcpServer 0, Emit serverStopped],
      next_id = 2\<rparr>"


definition one_request :: http_world where
  "one_request = schedule 0 [(1, Arrive, quiet)] no_requests"

section \<open>Notions for the proofs\<close>

text \<open>What \<^verbatim>\<open>pushToolsToServer\<close> adds to the trace when the engine accepts every tool.\<close>

definition push_trace :: "nat \<Rightarrow> AnyTool list \<Rightarrow> action list" where
  "push_trace engine ts =
     concat (map (\<lambda>t. [Log Info ''Registering tool'' (name t), RegisterTool engine t]) ts)"

text \<open>The body of the 500 response.\<close>

definition internal_error :: JsonRpcError where
  "internal_error = \<lparr>jsonrpc = ''2.0'', error_code = - 32603,
                      error_message = ''Internal server error'', id = None\<rparr>"

text \<open>
  What one phase of request \<open>r\<close> may do to the world: it adds actions of \<open>r\<close> only, on
  the transport of \<open>r\<close> or on the engine of the handler; it leaves the other requests
  alone; it keeps the transport and the close handler of \<open>r\<close>; it emits the completed event
  exactly when the teardown of \<open>r\<close> becomes complete; and a request that arrives gets no
  transport, or the next one of the allocator.
\<close>

definition added :: "nat \<Rightarrow> http_world \<Rightarrow> http_world \<Rightarrow> action list" where
  "added r w w' = drop (length (actions_of r (log w))) (actions_of r (log w'))"

definition object_ok :: "nat \<Rightarrow> request_ctx option \<Rightarrow> obj \<Rightarrow> bool" where
  "object_ok server c ob =
     (case ob of
        TransportObj t \<Rightarrow> (case c of None \<Rightarrow> False | Some c' \<Rightarrow> ctx_transport c' = Some t)
      | EngineObj e \<Rightarrow> e = server)"

definition effect :: "nat \<Rightarrow> nat \<Rightarrow> http_world \<Rightarrow> http_world \<Rightarrow> bool" where
  "effect server r w w' \<longleftrightarrow>
     actions_of r (log w') = actions_of r (log w) @ added r w w'
     \<and> (\<forall>q. q \<noteq> r \<longrightarrow> actions_of q (log w') = actions_of q (log w)
                     \<and> requests w' q = requests w q)
     \<and> (\<forall>a ob. a \<in> set (added r w w') \<and> ob \<in> set (uses a)
           \<longrightarrow> object_ok server (requests w' r) ob)
     \<and> (\<forall>c. requests w r = Some c \<longrightarrow>
           next_transport w' = next_transport w
           \<and> (\<exists>c'. requests w' r = Some c' \<and> ctx_transport c' = ctx_transport c
                   \<and> close_registered c' = close_registered c
                   \<and> (teardown_pc c = Completed \<longrightarrow> teardown_pc c' = Completed)
                   \<and> count_list (concat (map event_of (added r w w'))) (requestCompleted r r)
                       = (if teardown_pc c' = Completed \<and> teardown_pc c \<noteq> Completed then 1 else 0)))
     \<and> (requests w r = None \<longrightarrow>
           w' = w
           \<or> (\<exists>c'. requests w' r = Some c' \<and> teardown_pc c' = Open
                    \<and> count_list (concat (map event_of (added r w w'))) (requestCompleted r r) = 0
                    \<and> ((ctx_transport c' = None \<and> \<not> close_registered c'
                         \<and> next_transport w' = next_transport w)
                        \<or> (ctx_transport c' = Some (next_transport w)
                            \<and> next_transport w' = Suc (next_transport w)))))"

text \<open>
  What holds of every world that a schedule reaches: transports come from the allocator,
  a request acts on its own transport and on the engine of the handler only, a request
  that never arrived has done nothing, the completed event of a request is in the trace
  once when its teardown is complete and not at all before, a close handler comes with a
  transport, and no two requests have the same transport.
\<close>

definition sound :: "nat \<Rightarrow> http_world \<Rightarrow> bool" where
  "sound server w \<longleftrightarrow>
     (\<forall>q c t. requests w q = Some c \<and> ctx_transport c = Some t \<longrightarrow> t < next_transport w)
     \<and> (\<forall>q a ob. a \<in> set (actions_of q (log w)) \<and> ob \<in> set (uses a)
           \<longrightarrow> object_ok server (requests w q) ob)
     \<and> (\<forall>q. requests w q = None \<longrightarrow> actions_of q (log w) = [])
     \<and> (\<forall>q c. requests w q = Some c \<longrightarrow>
           completions q w = (if teardown_pc c = Completed then 1 else 0))
     \<and> (\<forall>q c. requests w q = Some c \<and> close_registered c \<longrightarrow> ctx_transport c \<noteq> None)
     \<and> (\<forall>q1 q2 c1 c2 t. q1 \<noteq> q2 \<and> requests w q1 = Some c1 \<and> requests w q2 = Some c2
           \<and> ctx_transport c1 = Some t \<longrightarrow> ctx_transport c2 \<noteq> Some t)"

text \<open>
  What the engine answers when it is asked to register \<open>ts\<close> one after the other,
  holding \<open>held\<close> already: the error of the first tool it rejects (none when it accepts
  them all), and the tools it accepted before that one.
\<close>

fun first_rejection :: "env \<Rightarrow> AnyTool list \<Rightarrow> AnyTool list \<Rightarrow> error option" where
  "first_rejection env held [] = None"
| "first_rejection env held (t # ts) =
     (case on_registerTool env held t of
        Some e \<Rightarrow> Some e
      | None \<Rightarrow> first_rejection env (held @ [t]) ts)"

fun accepted :: "env \<Rightarrow> AnyTool list \<Rightarrow> AnyTool list \<Rightarrow> AnyTool list" where
  "accepted env held [] = []"
| "accepted env held (t # ts) =
     (case on_registerTool env held t of
        Some e \<Rightarrow> []
      | None \<Rightarrow> t # accepted env (held @ [t]) ts)"

text \<open>
  The collaborators let a \<open>start\<close> with the registry \<open>ts\<close> go through: no listener
  throws, the engine is constructed and accepts every tool, and the transport of the
  options comes up.
\<close>

definition start_succeeds :: "McpServerOptions \<Rightarrow> env \<Rightarrow> AnyTool list \<Rightarrow> bool" where
  "start_succeeds options env ts \<longleftrightarrow>
     on_emit env serverStarting = None \<and> on_new_server env = None
     \<and> first_rejection env [] ts = None
     \<and> (case opt_transport options of
          Stdio \<Rightarrow> on_connect env = Fulfilled () \<and> on_emit env (serverReady ConnStdio ts) = None
        | Http \<Rightarrow>
            (case (case opt_port options of Some p \<Rightarrow> Fulfilled p | None \<Rightarrow> on_findFreePort env) of
               Fulfilled p \<Rightarrow>
                 on_listen env p = Listening
                 \<and> on_emit env (serverReady (ConnHttp ''localhost'' p) ts) = None
             | Rejected e \<Rightarrow> False
             | Pending \<Rightarrow> False))"

section \<open>Lemmas on the controller\<close>

subsection \<open>Calls that change nothing\<close>

lemma push_listen:
  "pushToolsToServer env server ts tr = (r, server', tr') \<Longrightarrow>
     filter is_listen tr' = filter is_listen tr"
  by (induction ts arbitrary: server tr) (auto split: option.splits simp: Let_def)







lemma registerTools_keeps:
  "registerTools env ts s = (r, s') \<Longrightarrow>
     isServerRunning s' = isServerRunning s \<and> connectionInfo s' = connectionInfo s
     \<and> httpServer s' = httpServer s \<and> binds s' = binds s"
  by (auto simp: registerTools_def binds_def split: option.splits prod.splits dest: push_listen)







subsection \<open>The running invariant\<close>

lemma start_stdio_inv:
  "running_has_info options s \<Longrightarrow> opt_transport options = Stdio \<Longrightarrow>
     running_has_info options (snd (start_stdio env server s))"
  by (auto simp: running_has_info_def start_stdio_def emit_def trace_add_def Let_def
      split: promise.splits option.splits)

lemma start_http_inv:
  "running_has_info options s \<Longrightarrow> opt_transport options = Http \<Longrightarrow>
     running_has_info options (snd (start_http options env server s))"
  by (auto simp: running_has_info_def start_http_def emit_def trace_add_def Let_def
      split: promise.splits option.splits listening.splits)

lemma running_has_info_upd [simp]:
  "running_has_info options (s\<lparr>mcpServer := m\<rparr>) = running_has_info options s"
  "running_has_info options (s\<lparr>httpServer := h\<rparr>) = running_has_info options s"
  "running_has_info options (s\<lparr>registeredTools := ts\<rparr>) = running_has_info options s"
  "running_has_info options (s\<lparr>trace := tr\<rparr>) = running_has_info options s"
  "running_has_info options (s\<lparr>next_id := n\<rparr>) = running_has_info options s"
  by (simp_all add: running_has_info_def)

lemma start_try_inv:
  assumes "running_has_info options s"
  shows "running_has_info options (snd (start_try options env s))"
  using assms
  by (auto simp: start_try_def Let_def trace_add_def
      split: option.splits prod.splits transport_kind.splits
      intro!: start_stdio_inv start_http_inv)

lemma emit_inv: "running_has_info options (snd (emit env ev s)) = running_has_info options s"
  by (simp add: emit_def trace_add_def running_has_info_def)

lemma trace_add_inv: "running_has_info options (trace_add a s) = running_has_info options s"
  by (simp add: trace_add_def running_has_info_def)

lemma start_inv:
  assumes "running_has_info options s"
  shows "running_has_info options (snd (start options env s))"
proof (cases "isServerRunning s")
  case True
  with assms show ?thesis by (simp add: start_def trace_add_inv)
next
  case False
  obtain r1 s1 where e1: "emit env serverStarting s = (r1, s1)" by (cases "emit env serverStarting s")
  have i1: "running_has_info options s1" using emit_inv [of options env serverStarting s] e1 assms by simp
  obtain r2 s2 where t: "start_try options env s1 = (r2, s2)" by (cases "start_try options env s1")
  have i2: "running_has_info options s2" using start_try_inv [OF i1, of env] t by simp
  show ?thesis
  proof (cases r1)
    case (Some e)
    with False e1 i1 show ?thesis by (simp add: start_def)
  next
    case None
    show ?thesis
    proof (cases r2)
      case (Rejected e)
      obtain r3 s3 where e3: "emit env (serverStartError e) s2 = (r3, s3)"
        by (cases "emit env (serverStartError e) s2")
      have "running_has_info options s3" using emit_inv [of options env "serverStartError e" s2] e3 i2 by simp
      with False None e1 t Rejected e3 show ?thesis by (simp add: start_def split: option.splits)
    qed (use False None e1 t i2 in \<open>simp_all add: start_def\<close>)
  qed
qed

lemma stop_http_keeps:
  "stop_http env s = (r, s') \<Longrightarrow>
     isServerRunning s' = isServerRunning s \<and> connectionInfo s' = connectionInfo s"
  by (cases "httpServer s"; cases "on_http_close env")
     (auto simp: stop_http_def trace_add_def Let_def)

lemma stop_mcp_keeps:
  "stop_mcp env s = (r, s') \<Longrightarrow>
     isServerRunning s' = isServerRunning s \<and> connectionInfo s' = connectionInfo s"
  by (cases "mcpServer s"; cases "on_server_close env")
     (auto simp: stop_mcp_def trace_add_def Let_def)

lemma stop_finish_idle:
  "stop_finish env s = (r, s') \<Longrightarrow> \<not> isServerRunning s' \<and> connectionInfo s' = None"
  by (cases "on_emit env serverStopped")
     (auto simp: stop_finish_def emit_def trace_add_def Let_def)

lemma stop_try_inv:
  assumes "running_has_info options s"
  shows "running_has_info options (snd (stop_try env s))"
proof -
  obtain r1 s1 where h: "stop_http env s = (r1, s1)" by (cases "stop_http env s")
  obtain r2 s2 where m: "stop_mcp env s1 = (r2, s2)" by (cases "stop_mcp env s1")
  obtain r3 s3 where f: "stop_finish env s2 = (r3, s3)" by (cases "stop_finish env s2")
  have i1: "running_has_info options s1"
    using stop_http_keeps [OF h] assms by (simp add: running_has_info_def)
  have i2: "running_has_info options s2"
    using stop_mcp_keeps [OF m] i1 by (simp add: running_has_info_def)
  have i3: "running_has_info options s3"
    using stop_finish_idle [OF f] by (simp add: running_has_info_def)
  show ?thesis
    using h m f i1 i2 i3 by (cases r1; cases r2) (simp_all add: stop_try_def)
qed

lemma stop_inv:
  assumes "running_has_info options s"
  shows "running_has_info options (snd (stop env s))"
proof (cases "isServerRunning s")
  case False
  with assms show ?thesis by (simp add: stop_def trace_add_inv)
next
  case True
  obtain r1 s1 where e1: "emit env serverStopping s = (r1, s1)" by (cases "emit env serverStopping s")
  have i1: "running_has_info options s1"
    using emit_inv [of options env serverStopping s] e1 assms by simp
  obtain r2 s2 where t: "stop_try env s1 = (r2, s2)" by (cases "stop_try env s1")
  have i2: "running_has_info options s2" using stop_try_inv [OF i1, of env] t by simp
  show ?thesis
    using True e1 t i1 i2 by (cases r1; cases r2) (simp_all add: stop_def trace_add_inv)
qed

lemma restart_inv:
  assumes "running_has_info options s"
  shows "running_has_info options (snd (restart options env s))"
proof -
  obtain r s1 where st: "stop env s = (r, s1)" by (cases "stop env s")
  have i1: "running_has_info options s1" using stop_inv [OF assms, of env] st by simp
  show ?thesis using st i1 start_inv [OF i1, of env]
    by (cases r) (simp_all add: restart_def)
qed

lemma registerTools_inv:
  assumes "running_has_info options s"
  shows "running_has_info options (snd (registerTools env ts s))"
proof -
  obtain r s' where h: "registerTools env ts s = (r, s')" by (cases "registerTools env ts s")
  from registerTools_keeps [OF h] assms have "running_has_info options s'"
    by (simp add: running_has_info_def)
  with h show ?thesis by simp
qed

lemma perform_inv:
  "running_has_info options s \<Longrightarrow> running_has_info options (perform options c s)"
proof (cases c)
  case (Pair k env)
  assume "running_has_info options s"
  with Pair show ?thesis
    by (cases k) (simp_all add: start_inv stop_inv restart_inv registerTools_inv)
qed

lemma run_inv:
  "running_has_info options s \<Longrightarrow> running_has_info options (run options cs s)"
  by (induction cs arbitrary: s) (simp_all add: perform_inv)

lemma build_inv: "running_has_info options (buildMCPServer options)"
  by (simp add: running_has_info_def buildMCPServer_def)

section \<open>Redundant lifecycle calls\<close>

lemma start_http_4000:
  "start http_4000 quiet (buildMCPServer http_4000) = (Fulfilled (), http_running)"
  by (simp add: start_def start_try_def start_http_def emit_def trace_add_def buildMCPServer_def
      http_4000_def quiet_def http_running_def demo_engine_def echo_def Let_def)

lemma start_stdio_demo:
  "start stdio_demo quiet (buildMCPServer stdio_demo) = (Fulfilled (), stdio_running)"
  by (simp add: start_def start_try_def start_stdio_def emit_def trace_add_def buildMCPServer_def
      stdio_demo_def quiet_def stdio_running_def demo_engine_def echo_def Let_def)




section \<open>Running implies connection info\<close>

text \<open>
  Claim C10. In every state that a sequence of \<open>start\<close>, \<open>stop\<close>, \<open>restart\<close> and
  \<open>registerTools\<close> calls reaches from a freshly built controller, whatever the
  collaborators answer (failures and promises that never settle included): if
  \<open>isRunning\<close> is true, the connection info of \<open>getStatus\<close> is defined and its transport
  tag is the transport of the options.
\<close>

theorem running_implies_connection_info:
  "isRunning (run options cs (buildMCPServer options)) \<Longrightarrow>
     \<exists>ci. status_connectionInfo (getStatus (run options cs (buildMCPServer options))) = Some ci
          \<and> transport_of ci = opt_transport options"
  using run_inv [OF build_inv, of options cs]
  by (auto simp: running_has_info_def isRunning_def getStatus_def split: option.splits)

theorem running_implies_connection_info_witness:
  "isRunning (run http_4000 [(Start, quiet)] (buildMCPServer http_4000))
   \<and> (\<exists>ci. status_connectionInfo (getStatus (run http_4000 [(Start, quiet)] (buildMCPServer http_4000)))
             = Some ci \<and> transport_of ci = opt_transport http_4000)"
proof -
  have r: "isRunning (run http_4000 [(Start, quiet)] (buildMCPServer http_4000))"
    by (simp add: start_http_4000 isRunning_def http_running_def)
  from r running_implies_connection_info [OF r] show ?thesis by blast
qed

section \<open>A stop that fails\<close>

lemma stop_http_cases:
  "stop_http env s =
     (case httpServer s of
        None \<Rightarrow> (Fulfilled (), s)
      | Some h \<Rightarrow>
          (case on_http_close env of
             Throws e \<Rightarrow> (Rejected e, s\<lparr>trace := trace s @ [CloseHttpServer (http_id h)]\<rparr>)
           | NeverCalled \<Rightarrow> (Pending, s\<lparr>trace := trace s @ [CloseHttpServer (http_id h)]\<rparr>)
           | Called \<Rightarrow> (Fulfilled (), s\<lparr>trace := trace s @ [CloseHttpServer (http_id h)], httpServer := None\<rparr>)))"
  by (simp add: stop_http_def trace_add_def Let_def split: option.splits callback.splits)

lemma stop_mcp_cases:
  "stop_mcp env s =
     (case mcpServer s of
        None \<Rightarrow> (Fulfilled (), s)
      | Some m \<Rightarrow>
          (case on_server_close env of
             Rejected e \<Rightarrow> (Rejected e, s\<lparr>trace := trace s @ [CloseMcpServer (engine_id m)]\<rparr>)
           | Pending \<Rightarrow> (Pending, s\<lparr>trace := trace s @ [CloseMcpServer (engine_id m)]\<rparr>)
           | Fulfilled u \<Rightarrow> (Fulfilled (), s\<lparr>trace := trace s @ [CloseMcpServer (engine_id m)], mcpServer := None\<rparr>)))"
  by (simp add: stop_mcp_def trace_add_def Let_def split: option.splits promise.splits)

lemma stop_finish_cases:
  "stop_finish env s =
     ((case on_emit env serverStopped of Some e \<Rightarrow> Rejected e | None \<Rightarrow> Fulfilled ()),
      s\<lparr>isServerRunning := False, connectionInfo := None, trace := trace s @ [Emit serverStopped]\<rparr>)"
  by (simp add: stop_finish_def emit_def trace_add_def Let_def split: option.splits)

text \<open>A teardown step that raises: the stop is rejected with that error and the state stays running.\<close>

lemma stop_socket_throws:
  assumes "isServerRunning s" "on_emit env serverStopping = None"
    and "httpServer s = Some h" "on_http_close env = Throws e"
  shows "stop env s =
           (Rejected e,
            s\<lparr>trace := trace s @ [Emit serverStopping, CloseHttpServer (http_id h),
                                   Log Error ''Error stopping server'' e]\<rparr>)"
  using assms by (simp add: stop_def stop_try_def stop_http_cases emit_def trace_add_def)

lemma stop_engine_rejects:
  assumes "isServerRunning s" "on_emit env serverStopping = None"
    and "httpServer s = None \<or> on_http_close env = Called"
    and "mcpServer s = Some m" "on_server_close env = Rejected e"
  shows "stop env s =
           (Rejected e,
            s\<lparr>trace := trace s @ [Emit serverStopping]
                         @ (case httpServer s of None \<Rightarrow> [] | Some h \<Rightarrow> [CloseHttpServer (http_id h)])
                         @ [CloseMcpServer (engine_id m), Log Error ''Error stopping server'' e],
               httpServer := None\<rparr>)"
  using assms
  by (cases "httpServer s")
     (auto simp: stop_def stop_try_def stop_http_cases stop_mcp_cases emit_def trace_add_def)

text \<open>
  Claim C3, as the code has it. When a teardown step of \<open>stop\<close> raises (the close of the
  listening socket throws, or the close of the engine is rejected after the socket step
  went through), \<open>stop\<close> logs the error and rejects with it, and it resets nothing: the
  running flag stays set, so \<open>isRunning\<close> is true after the failed stop, the connection
  info and the engine handle are kept; the socket handle is kept when the socket close
  threw and is already cleared when the engine close failed.
\<close>

theorem failed_stop_stays_running:
  assumes "isRunning s" and "on_emit env serverStopping = None"
    and "(httpServer s \<noteq> None \<and> on_http_close env = Throws e)
         \<or> ((httpServer s = None \<or> on_http_close env = Called)
             \<and> mcpServer s \<noteq> None \<and> on_server_close env = Rejected e)"
  shows "fst (stop env s) = Rejected e
         \<and> last (trace (snd (stop env s))) = Log Error ''Error stopping server'' e
         \<and> isRunning (snd (stop env s))
         \<and> status_connectionInfo (getStatus (snd (stop env s))) = status_connectionInfo (getStatus s)
         \<and> mcpServer (snd (stop env s)) = mcpServer s
         \<and> httpServer (snd (stop env s))
             = (if on_http_close env = Throws e then httpServer s else None)"
proof -
  from assms(1) have r: "isServerRunning s" by (simp add: isRunning_def)
  from assms(3) show ?thesis
  proof
    assume a: "httpServer s \<noteq> None \<and> on_http_close env = Throws e"
    then obtain h where h: "httpServer s = Some h" by auto
    from stop_socket_throws [OF r assms(2) h] a show ?thesis
      by (simp add: isRunning_def getStatus_def r)
  next
    assume a: "(httpServer s = None \<or> on_http_close env = Called)
             \<and> mcpServer s \<noteq> None \<and> on_server_close env = Rejected e"
    then obtain m where m: "mcpServer s = Some m" by auto
    from a have c: "httpServer s = None \<or> on_http_close env = Called"
      and d: "on_server_close env = Rejected e" by simp_all
    from stop_engine_rejects [OF r assms(2) c m d] a show ?thesis
      by (auto simp: isRunning_def getStatus_def r)
  qed
qed

theorem failed_stop_stays_running_witness:
  "isRunning stdio_running
   \<and> fst (stop engine_close_fails stdio_running) = Rejected ''close failed''
   \<and> last (trace (snd (stop engine_close_fails stdio_running)))
       = Log Error ''Error stopping server'' ''close failed''
   \<and> isRunning (snd (stop engine_close_fails stdio_running))
   \<and> status_connectionInfo (getStatus (snd (stop engine_close_fails stdio_running))) = Some ConnStdio"
proof -
  have 1: "isRunning stdio_running" by (simp add: isRunning_def stdio_running_def)
  have 2: "on_emit engine_close_fails serverStopping = None"
    by (simp add: engine_close_fails_def quiet_def)
  have 3: "(httpServer stdio_running \<noteq> None \<and> on_http_close engine_close_fails = Throws ''close failed'')
         \<or> ((httpServer stdio_running = None \<or> on_http_close engine_close_fails = Called)
             \<and> mcpServer stdio_running \<noteq> None
             \<and> on_server_close engine_close_fails = Rejected ''close failed'')"
    by (simp add: engine_close_fails_def quiet_def stdio_running_def)
  have 4: "status_connectionInfo (getStatus stdio_running) = Some ConnStdio"
    by (simp add: getStatus_def stdio_running_def)
  from failed_stop_stays_running [OF 1 2 3] 1 4 show ?thesis by simp
qed

text \<open>
  Claim C3 as stated fails: the stdio server is running, the close of the engine is
  rejected, and after the rejected \<open>stop\<close> the controller still reports running.
\<close>

theorem failed_stop_not_running_counterexample:
  "fst (stop engine_close_fails stdio_running) = Rejected ''close failed''
   \<and> isRunning (snd (stop engine_close_fails stdio_running)) = True"
  by (simp add: stop_def stop_try_def stop_http_cases stop_mcp_cases emit_def trace_add_def
      engine_close_fails_def quiet_def stdio_running_def isRunning_def)

section \<open>A stop that goes through\<close>

lemma stop_try_fulfilled:
  assumes "stop_try env s = (Fulfilled u, s')"
  shows "\<exists>s1 s2. stop_http env s = (Fulfilled (), s1) \<and> stop_mcp env s1 = (Fulfilled (), s2)
                 \<and> stop_finish env s2 = (Fulfilled (), s')"
proof -
  obtain r1 s1 where h: "stop_http env s = (r1, s1)" by (cases "stop_http env s")
  obtain r2 s2 where m: "stop_mcp env s1 = (r2, s2)" by (cases "stop_mcp env s1")
  from assms h have r1: "r1 = Fulfilled ()" by (cases r1) (simp_all add: stop_try_def)
  from assms h m r1 have r2: "r2 = Fulfilled ()" by (cases r2) (simp_all add: stop_try_def)
  from assms h m r1 r2 have "stop_finish env s2 = (Fulfilled (), s')" by (simp add: stop_try_def)
  with h m r1 r2 show ?thesis by blast
qed

lemma stop_http_fulfilled:
  assumes "stop_http env s = (Fulfilled u, s1)"
  shows "s1 = s\<lparr>trace := trace s @ (case httpServer s of None \<Rightarrow> [] | Some h \<Rightarrow> [CloseHttpServer (http_id h)]),
               httpServer := None\<rparr>"
  using assms by (cases "httpServer s"; cases "on_http_close env") (auto simp: stop_http_cases)

lemma stop_mcp_fulfilled:
  assumes "stop_mcp env s = (Fulfilled u, s1)"
  shows "s1 = s\<lparr>trace := trace s @ (case mcpServer s of None \<Rightarrow> [] | Some m \<Rightarrow> [CloseMcpServer (engine_id m)]),
               mcpServer := None\<rparr>"
  using assms by (cases "mcpServer s"; cases "on_server_close env") (auto simp: stop_mcp_cases)

lemma stop_fulfilled:
  assumes "isServerRunning s" "stop env s = (Fulfilled u, s')"
  shows "stop_try env (trace_add (Emit serverStopping) s) = (Fulfilled (), s')"
proof -
  obtain r2 s2 where t: "stop_try env (trace_add (Emit serverStopping) s) = (r2, s2)"
    by (cases "stop_try env (trace_add (Emit serverStopping) s)")
  from assms t show ?thesis
    by (cases "on_emit env serverStopping"; cases r2) (simp_all add: stop_def emit_def)
qed

text \<open>
  Claim C4, as the code has it. A \<open>stop\<close> that resolves from the running state emits
  the stopping event, closes the listening socket (when there is one), then closes the
  engine, then emits the stopped event, in this order and each step only after the one
  before was fulfilled; afterwards both handles are cleared, the connection info of
  \<open>getStatus\<close> is undefined and \<open>isRunning\<close> is false. The socket handle is cleared as soon
  as the socket close is through, before the engine is closed; the engine handle is
  cleared once the engine close is through; the running flag and the connection info are
  cleared only after both steps, right before the stopped event.
\<close>

theorem successful_stop_order:
  assumes "isRunning s" and "stop env s = (Fulfilled (), s')"
  shows "trace s' = trace s @ [Emit serverStopping]
                    @ (case httpServer s of None \<Rightarrow> [] | Some h \<Rightarrow> [CloseHttpServer (http_id h)])
                    @ (case mcpServer s of None \<Rightarrow> [] | Some m \<Rightarrow> [CloseMcpServer (engine_id m)])
                    @ [Emit serverStopped]
         \<and> httpServer s' = None \<and> mcpServer s' = None
         \<and> status_connectionInfo (getStatus s') = None \<and> \<not> isRunning s'
         \<and> (\<exists>s1 s2. stop_http env (trace_add (Emit serverStopping) s) = (Fulfilled (), s1)
                    \<and> stop_mcp env s1 = (Fulfilled (), s2)
                    \<and> stop_finish env s2 = (Fulfilled (), s')
                    \<and> httpServer s1 = None \<and> mcpServer s1 = mcpServer s
                    \<and> isServerRunning s1 \<and> connectionInfo s1 = connectionInfo s
                    \<and> mcpServer s2 = None
                    \<and> isServerRunning s2 \<and> connectionInfo s2 = connectionInfo s)"
proof -
  from assms(1) have r: "isServerRunning s" by (simp add: isRunning_def)
  define s0 where "s0 = trace_add (Emit serverStopping) s"
  from stop_fulfilled [OF r assms(2)] have t: "stop_try env s0 = (Fulfilled (), s')"
    by (simp add: s0_def)
  from stop_try_fulfilled [OF t] obtain s1 s2 where
    h: "stop_http env s0 = (Fulfilled (), s1)" and m: "stop_mcp env s1 = (Fulfilled (), s2)"
    and f: "stop_finish env s2 = (Fulfilled (), s')" by blast
  note e1 = stop_http_fulfilled [OF h]
  note e2 = stop_mcp_fulfilled [OF m]
  from f have e3: "s' = s2\<lparr>isServerRunning := False, connectionInfo := None,
                           trace := trace s2 @ [Emit serverStopped]\<rparr>"
    by (simp add: stop_finish_cases)
  have p1: "httpServer s1 = None \<and> mcpServer s1 = mcpServer s
            \<and> isServerRunning s1 \<and> connectionInfo s1 = connectionInfo s"
    using r by (simp add: e1 s0_def trace_add_def)
  have p2: "mcpServer s2 = None \<and> isServerRunning s2 \<and> connectionInfo s2 = connectionInfo s"
    using p1 by (simp add: e2)
  have tr: "trace s' = trace s @ [Emit serverStopping]
                    @ (case httpServer s of None \<Rightarrow> [] | Some h \<Rightarrow> [CloseHttpServer (http_id h)])
                    @ (case mcpServer s of None \<Rightarrow> [] | Some m \<Rightarrow> [CloseMcpServer (engine_id m)])
                    @ [Emit serverStopped]"
    by (simp add: e3 e2 e1 s0_def trace_add_def)
  have fin: "httpServer s' = None \<and> mcpServer s' = None
         \<and> status_connectionInfo (getStatus s') = None \<and> \<not> isRunning s'"
    by (simp add: e3 e2 e1 getStatus_def isRunning_def)
  from h m f p1 p2 have "\<exists>s1 s2. stop_http env (trace_add (Emit serverStopping) s) = (Fulfilled (), s1)
                    \<and> stop_mcp env s1 = (Fulfilled (), s2)
                    \<and> stop_finish env s2 = (Fulfilled (), s')
                    \<and> httpServer s1 = None \<and> mcpServer s1 = mcpServer s
                    \<and> isServerRunning s1 \<and> connectionInfo s1 = connectionInfo s
                    \<and> mcpServer s2 = None
                    \<and> isServerRunning s2 \<and> connectionInfo s2 = connectionInfo s"
    unfolding s0_def by blast
  with tr fin show ?thesis by blast
qed

lemma stop_http_running: "stop quiet http_running = (Fulfilled (), http_stopped)"
  by (simp add: stop_def stop_try_def stop_http_cases stop_mcp_cases stop_finish_cases emit_def
      trace_add_def quiet_def http_running_def http_stopped_def demo_engine_def)

theorem successful_stop_order_witness:
  "isRunning http_running \<and> stop quiet http_running = (Fulfilled (), http_stopped)
   \<and> trace http_stopped = trace http_running
        @ [Emit serverStopping, CloseHttpServer 1, CloseMcpServer 0, Emit serverStopped]
   \<and> status_connectionInfo (getStatus http_stopped) = None \<and> \<not> isRunning http_stopped"
proof -
  have r: "isRunning http_running" by (simp add: isRunning_def http_running_def)
  have h: "httpServer http_running = Some \<lparr>http_id = 1, http_port = 4000, http_host = ''localhost'',
                          http_app = mcp_routes 0\<rparr>"
    and m: "mcpServer http_running = Some (demo_engine [echo])"
    by (simp_all add: http_running_def)
  from successful_stop_order [OF r stop_http_running] r stop_http_running show ?thesis
    by (simp add: h m demo_engine_def)
qed

text \<open>
  Claim C4 as stated fails in one point: the handles are not all cleared only after
  both steps. In this resolving \<open>stop\<close> of the HTTP server, after the first step alone
  the socket handle is cleared, while the engine is not closed yet and is still held.
\<close>

theorem handle_nulled_before_engine_close_counterexample:
  "stop quiet http_running = (Fulfilled (), http_stopped)
   \<and> httpServer (snd (stop_http quiet (trace_add (Emit serverStopping) http_running))) = None
   \<and> CloseMcpServer 0 \<notin> set (trace (snd (stop_http quiet (trace_add (Emit serverStopping) http_running))))
   \<and> mcpServer (snd (stop_http quiet (trace_add (Emit serverStopping) http_running)))
       = Some (demo_engine [echo])"
proof -
  have "httpServer (snd (stop_http quiet (trace_add (Emit serverStopping) http_running))) = None
   \<and> CloseMcpServer 0 \<notin> set (trace (snd (stop_http quiet (trace_add (Emit serverStopping) http_running))))
   \<and> mcpServer (snd (stop_http quiet (trace_add (Emit serverStopping) http_running)))
       = Some (demo_engine [echo])"
    by (simp add: stop_http_cases trace_add_def quiet_def http_running_def)
  with stop_http_running show ?thesis by blast
qed

section \<open>A start that fails\<close>

lemma start_stdio_cases:
  "start_stdio env server s =
     (case on_connect env of
        Rejected e \<Rightarrow> (Rejected e, s\<lparr>trace := trace s @ [Connect (engine_id server) StdioServerTransport]\<rparr>)
      | Pending \<Rightarrow> (Pending, s\<lparr>trace := trace s @ [Connect (engine_id server) StdioServerTransport]\<rparr>)
      | Fulfilled u \<Rightarrow>
          ((case on_emit env (serverReady ConnStdio (registeredTools s)) of
              Some e \<Rightarrow> Rejected e | None \<Rightarrow> Fulfilled ()),
           s\<lparr>connectionInfo := Some ConnStdio, isServerRunning := True,
              trace := trace s @ [Connect (engine_id server) StdioServerTransport,
                                  Emit (serverReady ConnStdio (registeredTools s))]\<rparr>))"
  by (simp add: start_stdio_def emit_def trace_add_def Let_def split: promise.splits option.splits)

text \<open>
  What the \<^verbatim>\<open>catch\<close> block of \<^verbatim>\<open>start\<close> does with a failure raised inside the \<^verbatim>\<open>try\<close>
  block: it emits the start-failed event carrying the error and raises the error again
  (or the error of a listener of that event). It resets no variable and closes nothing.
\<close>

lemma start_catch:
  assumes "\<not> isServerRunning s" and "on_emit env serverStarting = None"
    and "start_try options env (trace_add (Emit serverStarting) s) = (Rejected e, s2)"
  shows "start options env s =
           (Rejected (case on_emit env (serverStartError e) of None \<Rightarrow> e | Some x \<Rightarrow> x),
            trace_add (Emit (serverStartError e)) s2)"
  using assms by (simp add: start_def emit_def split: option.splits)

text \<open>A \<^verbatim>\<open>listen\<close> call that throws is such a failure; a bind that fails later is not.\<close>

lemma start_http_listen:
  assumes "opt_port options = Some p"
  shows "fst (start_http options env server s) =
           (case on_listen env p of
              ListenThrows e \<Rightarrow> Rejected e
            | NoCallback \<Rightarrow> Pending
            | _ \<Rightarrow> (case on_emit env (serverReady (ConnHttp ''localhost'' p) (registeredTools s)) of
                      None \<Rightarrow> Fulfilled ()
                    | Some e \<Rightarrow> Pending))"
  using assms
  by (simp add: start_http_def emit_def trace_add_def Let_def split: listening.splits option.splits)

text \<open>
  Claim C2 fails on the code. The controller is built for HTTP on port 4000, and the port
  is occupied. The promise around \<^verbatim>\<open>listen\<close> has no way to reject and the callback takes
  no error: when the framework hands the bind error to the callback, \<open>start\<close> sets the
  connection info and the running flag, emits the ready event and resolves, with no
  start-failed event, and the controller reports running on a port it does not hold;
  when the framework never invokes the callback, \<open>start\<close> never settles, again with no
  start-failed event. The claim asks for what \<open>start\<close> does when \<^verbatim>\<open>listen\<close> throws: the
  start-failed event, the error raised again, and a controller that is not running.
\<close>

theorem occupied_port_start_resolves_running:
  "fst (start http_4000 port_occupied (buildMCPServer http_4000)) = Fulfilled ()
   \<and> isRunning (snd (start http_4000 port_occupied (buildMCPServer http_4000)))
   \<and> status_connectionInfo (getStatus (snd (start http_4000 port_occupied (buildMCPServer http_4000))))
       = Some (ConnHttp ''localhost'' 4000)
   \<and> trace (snd (start http_4000 port_occupied (buildMCPServer http_4000)))
       = [Emit serverStarting, NewMcpServer 0, Log Info ''Registering tool'' ''echo'',
          RegisterTool 0 echo, Listen 4000 ''localhost'',
          Emit (serverReady (ConnHttp ''localhost'' 4000) [echo])]
   \<and> fst (start http_4000 port_occupied_silent (buildMCPServer http_4000)) = Pending
   \<and> trace (snd (start http_4000 port_occupied_silent (buildMCPServer http_4000)))
       = [Emit serverStarting, NewMcpServer 0, Log Info ''Registering tool'' ''echo'',
          RegisterTool 0 echo, Listen 4000 ''localhost'']
   \<and> fst (start http_4000 listen_throws (buildMCPServer http_4000)) = Rejected ''listen failed''
   \<and> trace (snd (start http_4000 listen_throws (buildMCPServer http_4000)))
       = [Emit serverStarting, NewMcpServer 0, Log Info ''Registering tool'' ''echo'',
          RegisterTool 0 echo, Listen 4000 ''localhost'',
          Emit (serverStartError ''listen failed'')]
   \<and> \<not> isRunning (snd (start http_4000 listen_throws (buildMCPServer http_4000)))"
  by (simp add: start_def start_try_def start_http_def emit_def trace_add_def buildMCPServer_def
      http_4000_def port_occupied_def port_occupied_silent_def listen_throws_def quiet_def
      echo_def Let_def isRunning_def getStatus_def)

text \<open>
  The \<^verbatim>\<open>catch\<close> block resets nothing, so a failure raised after the running flag was set
  leaves it set: in stdio mode the engine connects, the flag is set, and a listener of
  the ready event throws. \<open>start\<close> rejects with that error, and the controller reports
  running.
\<close>

lemma ready_listener_failure_leaves_running:
  "fst (start stdio_demo ready_listener_throws (buildMCPServer stdio_demo)) = Rejected ''listener failed''
   \<and> isRunning (snd (start stdio_demo ready_listener_throws (buildMCPServer stdio_demo))) = True"
  by (simp add: start_def start_try_def start_stdio_cases emit_def trace_add_def buildMCPServer_def
      stdio_demo_def ready_listener_throws_def quiet_def Let_def isRunning_def)

section \<open>Registering tools\<close>

lemma push_engine_id:
  "pushToolsToServer env m ts tr = (r, m', tr') \<Longrightarrow> engine_id m' = engine_id m"
  by (induction ts arbitrary: m tr) (auto simp: Let_def split: option.splits)

lemma push_accepted:
  "pushToolsToServer env m ts tr = (None, m', tr') \<Longrightarrow>
     m' = m\<lparr>engine_tools := engine_tools m @ ts\<rparr> \<and> tr' = tr @ push_trace (engine_id m) ts"
proof (induction ts arbitrary: m tr)
  case Nil
  then show ?case by (simp add: push_trace_def)
next
  case (Cons t ts)
  from Cons.prems have a: "on_registerTool env (engine_tools m) t = None"
    by (auto simp: Let_def split: option.splits)
  with Cons.prems have
    "pushToolsToServer env (m\<lparr>engine_tools := engine_tools m @ [t]\<rparr>) ts
       (tr @ [Log Info ''Registering tool'' (name t), RegisterTool (engine_id m) t]) = (None, m', tr')"
    by (simp add: Let_def)
  from Cons.IH [OF this] show ?case by (simp add: push_trace_def)
qed

lemma registerTools_no_engine:
  "mcpServer s = None \<Longrightarrow>
     registerTools env ts s = (None, s\<lparr>registeredTools := registeredTools s @ ts\<rparr>)"
  by (simp add: registerTools_def)

lemma registerTools_accepted:
  assumes "mcpServer s = Some m" "fst (registerTools env ts s) = None"
  shows "snd (registerTools env ts s) =
           s\<lparr>mcpServer := Some (m\<lparr>engine_tools := engine_tools m @ ts\<rparr>),
              trace := trace s @ push_trace (engine_id m) ts,
              registeredTools := registeredTools s @ ts\<rparr>"
proof -
  obtain r m' tr' where p: "pushToolsToServer env m ts (trace s) = (r, m', tr')"
    by (cases "pushToolsToServer env m ts (trace s)") auto
  from assms p have "r = None" by (cases r) (simp_all add: registerTools_def)
  with p push_accepted [of env m ts "trace s" m' tr'] assms(1) show ?thesis
    by (simp add: registerTools_def)
qed

lemma start_try_fulfilled_engine:
  assumes "start_try options env s = (Fulfilled u, s')"
  shows "registeredTools s' = registeredTools s
         \<and> (\<exists>m. mcpServer s' = Some m \<and> engine_tools m = registeredTools s \<and> engine_id m = next_id s)"
proof (cases "on_new_server env")
  case (Some x)
  with assms show ?thesis by (simp add: start_try_def)
next
  case None
  define server where "server = \<lparr>engine_id = next_id s, info_name = opt_name options,
                         info_version = opt_version options,
                         info_description =
                           (case opt_description options of
                              None \<Rightarrow> opt_name options @ '' MCP server''
                            | Some d \<Rightarrow> if d = [] then opt_name options @ '' MCP server'' else d),
                         engine_tools = []\<rparr>"
  define s1 where "s1 = trace_add (NewMcpServer (next_id s))
                      (s\<lparr>mcpServer := Some server, next_id := Suc (next_id s)\<rparr>)"
  obtain r server' tr where p: "pushToolsToServer env server (registeredTools s1) (trace s1) = (r, server', tr)"
    by (cases "pushToolsToServer env server (registeredTools s1) (trace s1)") auto
  define s2 where "s2 = s1\<lparr>mcpServer := Some server', trace := tr\<rparr>"
  have k: "mcpServer s2 = Some server'" "registeredTools s2 = registeredTools s"
    "registeredTools s1 = registeredTools s"
    by (simp_all add: s2_def s1_def trace_add_def)
  have unfold: "start_try options env s =
     (case r of Some e \<Rightarrow> (Rejected e, s2)
      | None \<Rightarrow> (case opt_transport options of
                    Stdio \<Rightarrow> start_stdio env server' s2
                  | Http \<Rightarrow> start_http options env server' s2))"
    using None p
    by (simp add: start_try_def Let_def s2_def flip: server_def s1_def
        split: option.splits transport_kind.splits)
  from unfold assms have r: "r = None" by (cases r) simp_all
  from push_accepted [of env server "registeredTools s1" "trace s1" server' tr] p r k
  have e: "engine_tools server' = registeredTools s" "engine_id server' = next_id s"
    by (simp_all add: server_def)
  have keep: "registeredTools s' = registeredTools s2 \<and> mcpServer s' = mcpServer s2"
  proof (cases "opt_transport options")
    case Stdio
    with unfold r assms have "start_stdio env server' s2 = (Fulfilled u, s')" by simp
    then show ?thesis
      by (cases "on_connect env"; cases "on_emit env (serverReady ConnStdio (registeredTools s2))")
         (auto simp: start_stdio_cases)
  next
    case Http
    with unfold r assms have "start_http options env server' s2 = (Fulfilled u, s')" by simp
    then show ?thesis
      by (auto simp: start_http_def emit_def trace_add_def Let_def
          split: promise.splits option.splits listening.splits)
  qed
  with k e show ?thesis by simp
qed

lemma start_fulfilled_engine:
  assumes "\<not> isServerRunning s" "start options env s = (Fulfilled u, s')"
  shows "registeredTools s' = registeredTools s
         \<and> (\<exists>m. mcpServer s' = Some m \<and> engine_tools m = registeredTools s)"
proof -
  obtain r2 s2 where t: "start_try options env (trace_add (Emit serverStarting) s) = (r2, s2)"
    by (cases "start_try options env (trace_add (Emit serverStarting) s)")
  from assms t have "r2 = Fulfilled () \<and> s' = s2"
    by (cases "on_emit env serverStarting"; cases r2)
       (auto simp: start_def emit_def split: option.splits)
  with t start_try_fulfilled_engine [of options env "trace_add (Emit serverStarting) s" "()" s']
  show ?thesis by (auto simp: trace_add_def)
qed

lemma accepted_all: "first_rejection env held ts = None \<Longrightarrow> accepted env held ts = ts"
  by (induction ts arbitrary: held) (auto split: option.splits)

lemma push_result:
  "pushToolsToServer env m ts tr = (r, m', tr') \<Longrightarrow>
     r = first_rejection env (engine_tools m) ts
     \<and> m' = m\<lparr>engine_tools := engine_tools m @ accepted env (engine_tools m) ts\<rparr>"
proof (induction ts arbitrary: m tr)
  case Nil
  then show ?case by simp
next
  case (Cons t ts)
  show ?case
  proof (cases "on_registerTool env (engine_tools m) t")
    case (Some e)
    then have "pushToolsToServer env m (t # ts) tr =
        (Some e, m, tr @ [Log Info ''Registering tool'' (name t), RegisterTool (engine_id m) t])"
      by (simp add: Let_def)
    with Cons.prems have "r = Some e" "m' = m" by simp_all
    with Some show ?thesis by simp
  next
    case None
    with Cons.prems have
      "pushToolsToServer env (m\<lparr>engine_tools := engine_tools m @ [t]\<rparr>) ts
         (tr @ [Log Info ''Registering tool'' (name t), RegisterTool (engine_id m) t]) = (r, m', tr')"
      by (simp add: Let_def)
    from Cons.IH [OF this] None show ?thesis by simp
  qed
qed

lemma push_fst: "fst (pushToolsToServer env m ts tr) = first_rejection env (engine_tools m) ts"
  using push_result [of env m ts tr] by (cases "pushToolsToServer env m ts tr") auto

lemma registerTools_engine_accepts:
  assumes "mcpServer s = Some m" "first_rejection env (engine_tools m) ts = None"
  shows "registerTools env ts s =
           (None, s\<lparr>mcpServer := Some (m\<lparr>engine_tools := engine_tools m @ ts\<rparr>),
                    trace := trace s @ push_trace (engine_id m) ts,
                    registeredTools := registeredTools s @ ts\<rparr>)"
proof -
  have "fst (registerTools env ts s) = None"
    using assms push_fst [of env m ts "trace s"]
    by (cases "pushToolsToServer env m ts (trace s)")
       (auto simp: registerTools_def split: option.splits)
  with registerTools_accepted [OF assms(1) this] show ?thesis
    by (cases "registerTools env ts s") simp
qed

lemma registerTools_engine_rejects:
  assumes "mcpServer s = Some m" "first_rejection env (engine_tools m) ts = Some e"
  shows "fst (registerTools env ts s) = Some e
         \<and> registeredTools (snd (registerTools env ts s)) = registeredTools s
         \<and> mcpServer (snd (registerTools env ts s))
             = Some (m\<lparr>engine_tools := engine_tools m @ accepted env (engine_tools m) ts\<rparr>)"
proof -
  obtain r m' tr' where p: "pushToolsToServer env m ts (trace s) = (r, m', tr')"
    by (cases "pushToolsToServer env m ts (trace s)") auto
  from push_result [OF p] assms(2) have "r = Some e"
    and "m' = m\<lparr>engine_tools := engine_tools m @ accepted env (engine_tools m) ts\<rparr>" by simp_all
  with p assms(1) show ?thesis by (simp add: registerTools_def)
qed

lemma start_succeeds_fulfilled:
  assumes "\<not> isServerRunning s" "start_succeeds options env (registeredTools s)"
  shows "fst (start options env s) = Fulfilled ()"
proof -
  from assms(2) have e0: "on_emit env serverStarting = None" and n0: "on_new_server env = None"
    and f0: "first_rejection env [] (registeredTools s) = None"
    by (simp_all add: start_succeeds_def)
  define s0 where "s0 = trace_add (Emit serverStarting) s"
  define server where "server = \<lparr>engine_id = next_id s0, info_name = opt_name options,
                         info_version = opt_version options,
                         info_description =
                           (case opt_description options of
                              None \<Rightarrow> opt_name options @ '' MCP server''
                            | Some d \<Rightarrow> if d = [] then opt_name options @ '' MCP server'' else d),
                         engine_tools = []\<rparr>"
  define s1 where "s1 = trace_add (NewMcpServer (next_id s0))
                      (s0\<lparr>mcpServer := Some server, next_id := Suc (next_id s0)\<rparr>)"
  have rt: "registeredTools s1 = registeredTools s"
    by (simp add: s1_def s0_def trace_add_def)
  obtain r server' tr where p: "pushToolsToServer env server (registeredTools s1) (trace s1) = (r, server', tr)"
    by (cases "pushToolsToServer env server (registeredTools s1) (trace s1)") auto
  from push_result [OF p] f0 rt have r: "r = None" by (simp add: server_def)
  define s2 where "s2 = s1\<lparr>mcpServer := Some server', trace := tr\<rparr>"
  have rt2: "registeredTools s2 = registeredTools s" by (simp add: s2_def rt)
  have unfold: "start_try options env s0 =
     (case opt_transport options of
        Stdio \<Rightarrow> start_stdio env server' s2
      | Http \<Rightarrow> start_http options env server' s2)"
    using n0 p r
    by (simp add: start_try_def Let_def s2_def flip: server_def s1_def
        split: option.splits transport_kind.splits)
  have t: "fst (start_try options env s0) = Fulfilled ()"
  proof (cases "opt_transport options")
    case Stdio
    with assms(2) have "on_connect env = Fulfilled ()"
      "on_emit env (serverReady ConnStdio (registeredTools s)) = None"
      by (simp_all add: start_succeeds_def)
    with unfold Stdio rt2 show ?thesis by (simp add: start_stdio_cases)
  next
    case Http
    show ?thesis
    proof (cases "opt_port options")
      case None
      with Http assms(2) obtain p where "on_findFreePort env = Fulfilled p"
        "on_listen env p = Listening"
        "on_emit env (serverReady (ConnHttp ''localhost'' p) (registeredTools s)) = None"
        by (cases "on_findFreePort env") (simp_all add: start_succeeds_def)
      with unfold Http None rt2 show ?thesis
        by (simp add: start_http_def emit_def trace_add_def Let_def)
    next
      case (Some p)
      with Http assms(2) have "on_listen env p = Listening"
        "on_emit env (serverReady (ConnHttp ''localhost'' p) (registeredTools s)) = None"
        by (simp_all add: start_succeeds_def)
      with unfold Http Some rt2 show ?thesis
        by (simp add: start_http_def emit_def trace_add_def Let_def)
    qed
  qed
  obtain u s3 where u: "start_try options env s0 = (u, s3)" by (cases "start_try options env s0")
  with t have "u = Fulfilled ()" by simp
  with assms(1) e0 u show ?thesis by (simp add: start_def emit_def s0_def)
qed

text \<open>
  Claim C6, as the code has it. With no engine constructed, \<open>registerTools\<close> only appends
  the tools to the registry, in call order, and returns. With an engine constructed it
  first pushes them into that engine, one \<^verbatim>\<open>registerTool\<close> call per tool in order. When
  the engine accepts them all, the call returns, the same engine instance holds them
  after the ones it had, and the registry has them appended. When the engine rejects one,
  the call raises the error of the engine, the registry is left as it was, and the engine
  keeps the tools it accepted before that one. So tools registered while the controller
  is not running are, after a \<open>start\<close> that the collaborators let through, in \<open>tools\<close>
  of \<open>getStatus\<close> and in the engine of that \<open>start\<close>; tools registered with the engine
  live are in both at once.
\<close>

theorem registerTools_appends_and_pushes:
  "(mcpServer s = None \<longrightarrow>
      registerTools env ts s = (None, s\<lparr>registeredTools := registeredTools s @ ts\<rparr>))
   \<and> (mcpServer s = Some m \<and> first_rejection env (engine_tools m) ts = None \<longrightarrow>
        registerTools env ts s =
          (None, s\<lparr>mcpServer := Some (m\<lparr>engine_tools := engine_tools m @ ts\<rparr>),
                   trace := trace s @ push_trace (engine_id m) ts,
                   registeredTools := registeredTools s @ ts\<rparr>))
   \<and> (mcpServer s = Some m \<and> first_rejection env (engine_tools m) ts = Some e \<longrightarrow>
        fst (registerTools env ts s) = Some e
        \<and> tools (getStatus (snd (registerTools env ts s))) = tools (getStatus s)
        \<and> mcpServer (snd (registerTools env ts s))
            = Some (m\<lparr>engine_tools := engine_tools m @ accepted env (engine_tools m) ts\<rparr>))
   \<and> (\<not> isRunning s
        \<and> (case mcpServer s of None \<Rightarrow> True
            | Some m' \<Rightarrow> first_rejection env (engine_tools m') ts = None)
        \<and> start_succeeds options env' (registeredTools s @ ts) \<longrightarrow>
        fst (registerTools env ts s) = None
        \<and> fst (start options env' (snd (registerTools env ts s))) = Fulfilled ()
        \<and> tools (getStatus (snd (start options env' (snd (registerTools env ts s)))))
            = tools (getStatus s) @ ts
        \<and> map_option engine_tools
            (mcpServer (snd (start options env' (snd (registerTools env ts s)))))
            = Some (tools (getStatus s) @ ts))"
proof (intro conjI impI)
  assume "mcpServer s = None"
  then show "registerTools env ts s = (None, s\<lparr>registeredTools := registeredTools s @ ts\<rparr>)"
    by (rule registerTools_no_engine)
next
  assume "mcpServer s = Some m \<and> first_rejection env (engine_tools m) ts = None"
  then show "registerTools env ts s =
          (None, s\<lparr>mcpServer := Some (m\<lparr>engine_tools := engine_tools m @ ts\<rparr>),
                   trace := trace s @ push_trace (engine_id m) ts,
                   registeredTools := registeredTools s @ ts\<rparr>)"
    by (simp add: registerTools_engine_accepts)
next
  assume a: "mcpServer s = Some m \<and> first_rejection env (engine_tools m) ts = Some e"
  then have m: "mcpServer s = Some m" and f: "first_rejection env (engine_tools m) ts = Some e"
    by simp_all
  from registerTools_engine_rejects [OF m f]
  show "fst (registerTools env ts s) = Some e"
    and "tools (getStatus (snd (registerTools env ts s))) = tools (getStatus s)"
    and "mcpServer (snd (registerTools env ts s))
            = Some (m\<lparr>engine_tools := engine_tools m @ accepted env (engine_tools m) ts\<rparr>)"
    by (simp_all add: getStatus_def)
next
  assume a: "\<not> isRunning s
        \<and> (case mcpServer s of None \<Rightarrow> True
            | Some m' \<Rightarrow> first_rejection env (engine_tools m') ts = None)
        \<and> start_succeeds options env' (registeredTools s @ ts)"
  define s1 where "s1 = snd (registerTools env ts s)"
  have reg: "registerTools env ts s = (None, s1)" and t1: "registeredTools s1 = registeredTools s @ ts"
  proof -
    show "registerTools env ts s = (None, s1)"
    proof (cases "mcpServer s")
      case None
      from registerTools_no_engine [OF None, of env ts] show ?thesis by (simp add: s1_def)
    next
      case (Some m')
      with a have "first_rejection env (engine_tools m') ts = None" by simp
      from registerTools_engine_accepts [OF Some this] show ?thesis by (simp add: s1_def)
    qed
    then show "registeredTools s1 = registeredTools s @ ts"
      by (cases "mcpServer s") (auto simp: registerTools_def split: option.splits prod.splits
          dest: push_accepted)
  qed
  from registerTools_keeps [OF reg] a have n: "\<not> isServerRunning s1" by (simp add: isRunning_def)
  from a t1 have ok: "start_succeeds options env' (registeredTools s1)" by simp
  from start_succeeds_fulfilled [OF n ok] have f: "fst (start options env' s1) = Fulfilled ()" .
  then have st: "start options env' s1 = (Fulfilled (), snd (start options env' s1))"
    by (cases "start options env' s1") simp
  from reg show "fst (registerTools env ts s) = None" by simp
  from f show "fst (start options env' (snd (registerTools env ts s))) = Fulfilled ()"
    by (simp add: s1_def)
  from start_fulfilled_engine [OF n st] t1
  show "tools (getStatus (snd (start options env' (snd (registerTools env ts s)))))
            = tools (getStatus s) @ ts"
    and "map_option engine_tools
            (mcpServer (snd (start options env' (snd (registerTools env ts s)))))
            = Some (tools (getStatus s) @ ts)"
    by (auto simp: getStatus_def s1_def)
qed


theorem registerTools_appends_and_pushes_witness:
  "mcpServer (buildMCPServer http_4000) = None
   \<and> registerTools quiet [ping] (buildMCPServer http_4000)
       = (None, (buildMCPServer http_4000)\<lparr>registeredTools := [echo, ping]\<rparr>)
   \<and> mcpServer http_running = Some (demo_engine [echo])
   \<and> first_rejection quiet [echo] [ping] = None
   \<and> registerTools quiet [ping] http_running =
        (None, http_running\<lparr>mcpServer := Some (demo_engine [echo, ping]),
                 trace := trace http_running
                          @ [Log Info ''Registering tool'' ''ping'', RegisterTool 0 ping],
                 registeredTools := [echo, ping]\<rparr>)
   \<and> first_rejection rejects_duplicates [echo] [echo] = Some ''already registered''
   \<and> fst (registerTools rejects_duplicates [echo] http_running) = Some ''already registered''
   \<and> tools (getStatus (snd (registerTools rejects_duplicates [echo] http_running))) = [echo]
   \<and> mcpServer (snd (registerTools rejects_duplicates [echo] http_running))
       = Some (demo_engine [echo])
   \<and> \<not> isRunning (buildMCPServer http_4000)
   \<and> start_succeeds http_4000 quiet [echo, ping]
   \<and> fst (registerTools quiet [ping] (buildMCPServer http_4000)) = None
   \<and> fst (start http_4000 quiet (snd (registerTools quiet [ping] (buildMCPServer http_4000))))
       = Fulfilled ()
   \<and> tools (getStatus (snd (start http_4000 quiet
         (snd (registerTools quiet [ping] (buildMCPServer http_4000)))))) = [echo, ping]
   \<and> map_option engine_tools (mcpServer (snd (start http_4000 quiet
         (snd (registerTools quiet [ping] (buildMCPServer http_4000)))))) = Some [echo, ping]"
proof -
  let ?s0 = "buildMCPServer http_4000"
  let ?m = "demo_engine [echo]"
  have a: "mcpServer ?s0 = None" "\<not> isRunning ?s0" "tools (getStatus ?s0) = [echo]"
    "registeredTools ?s0 = [echo]"
    by (simp_all add: buildMCPServer_def isRunning_def getStatus_def http_4000_def)
  have b: "mcpServer http_running = Some ?m"
    "tools (getStatus http_running) = [echo]" "registeredTools http_running = [echo]"
    by (simp_all add: http_running_def getStatus_def)
  have d: "?m\<lparr>engine_tools := engine_tools ?m @ [ping]\<rparr> = demo_engine [echo, ping]"
    "?m\<lparr>engine_tools := engine_tools ?m @ []\<rparr> = ?m"
    "engine_id ?m = 0"
    by (simp_all add: demo_engine_def)
  have p: "push_trace 0 [ping] = [Log Info ''Registering tool'' ''ping'', RegisterTool 0 ping]"
    by (simp add: push_trace_def ping_def)
  have f1: "first_rejection quiet (engine_tools ?m) [ping] = None"
    and f2: "first_rejection rejects_duplicates (engine_tools ?m) [echo] = Some ''already registered''"
    and f3: "accepted rejects_duplicates (engine_tools ?m) [echo] = []"
    and f4: "first_rejection quiet [echo] [ping] = None"
    and f5: "first_rejection rejects_duplicates [echo] [echo] = Some ''already registered''"
    by (simp_all add: quiet_def rejects_duplicates_def demo_engine_def)
  have g: "start_succeeds http_4000 quiet [echo, ping]"
    by (simp add: start_succeeds_def http_4000_def quiet_def)
  have h: "\<not> isRunning ?s0
        \<and> (case mcpServer ?s0 of None \<Rightarrow> True
            | Some m' \<Rightarrow> first_rejection quiet (engine_tools m') [ping] = None)
        \<and> start_succeeds http_4000 quiet (registeredTools ?s0 @ [ping])"
    using a g by simp
  note idle = registerTools_appends_and_pushes
      [of ?s0 quiet "[ping]" ?m "''none''" http_4000 quiet]
  note live = registerTools_appends_and_pushes
      [of http_running quiet "[ping]" ?m "''none''" http_4000 quiet]
  note twice = registerTools_appends_and_pushes
      [of http_running rejects_duplicates "[echo]" ?m "''already registered''" http_4000 quiet]
  have c1: "registerTools quiet [ping] ?s0 = (None, ?s0\<lparr>registeredTools := [echo, ping]\<rparr>)"
    using idle [THEN conjunct1, THEN mp, OF a(1)] a(4) by simp
  have c2: "registerTools quiet [ping] http_running =
        (None, http_running\<lparr>mcpServer := Some (demo_engine [echo, ping]),
                 trace := trace http_running
                          @ [Log Info ''Registering tool'' ''ping'', RegisterTool 0 ping],
                 registeredTools := [echo, ping]\<rparr>)"
    using live [THEN conjunct2, THEN conjunct1, THEN mp, OF conjI [OF b(1) f1]] b(3) d p
    by simp
  have c3: "fst (registerTools rejects_duplicates [echo] http_running) = Some ''already registered''
        \<and> tools (getStatus (snd (registerTools rejects_duplicates [echo] http_running))) = [echo]
        \<and> mcpServer (snd (registerTools rejects_duplicates [echo] http_running)) = Some ?m"
    using twice [THEN conjunct2, THEN conjunct2, THEN conjunct1, THEN mp, OF conjI [OF b(1) f2]]
      b(2) d(2) f3
    by simp
  have c4: "fst (registerTools quiet [ping] ?s0) = None
        \<and> fst (start http_4000 quiet (snd (registerTools quiet [ping] ?s0))) = Fulfilled ()
        \<and> tools (getStatus (snd (start http_4000 quiet (snd (registerTools quiet [ping] ?s0)))))
            = [echo, ping]
        \<and> map_option engine_tools
            (mcpServer (snd (start http_4000 quiet (snd (registerTools quiet [ping] ?s0)))))
            = Some [echo, ping]"
    using idle [THEN conjunct2, THEN conjunct2, THEN conjunct2, THEN mp, OF h] a(3)
    by simp
  from a(1,2) b(1) f4 f5 g c1 c2 c3 c4 show ?thesis by blast
qed

text \<open>
  Claim C6 as stated fails: the HTTP server is running with the tool \<open>echo\<close> in its
  engine, the engine rejects a second registration of a name, and \<open>registerTools\<close> of
  \<open>echo\<close> raises and leaves the registry at one \<open>echo\<close>, nothing appended.
\<close>

theorem registerTools_rejected_not_appended_counterexample:
  "fst (registerTools rejects_duplicates [echo] http_running) = Some ''already registered''
   \<and> tools (getStatus (snd (registerTools rejects_duplicates [echo] http_running))) = [echo]
   \<and> tools (getStatus (snd (registerTools rejects_duplicates [echo] http_running)))
       \<noteq> tools (getStatus http_running) @ [echo]"
  by (simp add: registerTools_def http_running_def rejects_duplicates_def quiet_def
      demo_engine_def getStatus_def Let_def)

section \<open>Verbs other than POST\<close>

lemma say_simps [simp]:
  "log (say r a w) = log w @ [(r, a)]"
  "requests (say r a w) = requests w"
  "next_transport (say r a w) = next_transport w"
  by (simp_all add: say_def)

lemma upd_ctx_simps [simp]:
  "log (upd_ctx r f w) = log w"
  "next_transport (upd_ctx r f w) = next_transport w"
  "requests (upd_ctx r f w) q = (if q = r then map_option f (requests w r) else requests w q)"
  by (simp_all add: upd_ctx_def split: option.splits)

lemma respond_simps [simp]:
  "log (respond r code body w) = log w @ [(r, Respond r code body)]"
  "next_transport (respond r code body w) = next_transport w"
  "requests (respond r code body w) q =
     (if q = r then map_option (\<lambda>c. c\<lparr>headersSent := True, replied := Some (code, body)\<rparr>) (requests w r)
      else requests w q)"
  by (simp_all add: respond_def)






section \<open>A POST that fails\<close>

lemma handler_catch_log:
  "log (handler_catch env r e w) =
     log w @ [(r, Emit (requestFailed r e))]
     @ (if on_emit env (requestFailed r e) = None \<and> (\<exists>c. requests w r = Some c \<and> \<not> headersSent c)
        then [(r, Respond r 500 internal_error)] else [])"
  by (auto simp: handler_catch_def Let_def internal_error_def createJsonRpcError_def
      split: option.splits)

lemma handler_catch_ctx:
  "requests w r = Some c \<Longrightarrow>
     requests (handler_catch env r e w) r =
       Some (case on_emit env (requestFailed r e) of
               Some x \<Rightarrow> c\<lparr>handler_pc := Threw x\<rparr>
             | None \<Rightarrow>
                 if headersSent c then c\<lparr>handler_pc := Returned\<rparr>
                 else c\<lparr>headersSent := True, replied := Some (500, internal_error),
                        handler_pc := Returned\<rparr>)"
  by (auto simp: handler_catch_def Let_def internal_error_def createJsonRpcError_def
      split: option.splits)

lemma handler_catch_frame:
  "next_transport (handler_catch env r e w) = next_transport w"
  "q \<noteq> r \<Longrightarrow> requests (handler_catch env r e w) q = requests w q"
  by (auto simp: handler_catch_def Let_def split: option.splits)

lemma handler_catch_none:
  "requests w r = None \<Longrightarrow> requests (handler_catch env r e w) r = None"
  by (auto simp: handler_catch_def Let_def split: option.splits)

text \<open>The handler, case by case of where the exception comes from.\<close>

lemma begin_fails:
  assumes "on_emit env (requestReceived r) = Some e
           \<or> (on_emit env (requestReceived r) = None \<and> on_new_transport env = Some e)"
  shows "handler_begin server env r w =
           handler_catch env r e
             (say r (Emit (requestReceived r)) (w\<lparr>requests := (requests w)(r \<mapsto> new_ctx)\<rparr>))"
  using assms by (auto simp: handler_begin_def Let_def)

lemma begin_ok:
  assumes "on_emit env (requestReceived r) = None" "on_new_transport env = None"
  shows "log (handler_begin server env r w) =
           log w @ [(r, Emit (requestReceived r)), (r, NewTransport (next_transport w)),
                    (r, Connect server (StreamableHTTPServerTransport (next_transport w)))]"
    and "requests (handler_begin server env r w) r =
           Some (new_ctx\<lparr>ctx_transport := Some (next_transport w), close_registered := True,
                         handler_pc := AwaitConnect\<rparr>)"
    and "next_transport (handler_begin server env r w) = Suc (next_transport w)"
    and "q \<noteq> r \<Longrightarrow> requests (handler_begin server env r w) q = requests w q"
  using assms by (simp_all add: handler_begin_def Let_def)

lemma not_awaiting_connected:
  "requests w r = Some c \<Longrightarrow> handler_pc c \<noteq> AwaitConnect \<Longrightarrow> handler_connected env r w = w"
  by (simp add: handler_connected_def)

lemma not_awaiting_handled:
  "requests w r = Some c \<Longrightarrow> handler_pc c \<noteq> AwaitHandle \<Longrightarrow> handler_handled env r w = w"
  by (simp add: handler_handled_def)

lemma catch_not_awaiting:
  assumes "requests w r = Some c"
  shows "\<exists>c'. requests (handler_catch env r e w) r = Some c'
              \<and> handler_pc c' \<noteq> AwaitConnect \<and> handler_pc c' \<noteq> AwaitHandle"
  using handler_catch_ctx [OF assms, of env e]
  by (auto split: option.splits)

lemma handler_begin_fails:
  assumes "on_emit env (requestReceived r) = Some e
           \<or> (on_emit env (requestReceived r) = None \<and> on_new_transport env = Some e)"
  shows "createMcpRequestHandler server env r w =
           handler_catch env r e
             (say r (Emit (requestReceived r)) (w\<lparr>requests := (requests w)(r \<mapsto> new_ctx)\<rparr>))"
proof -
  let ?w1 = "say r (Emit (requestReceived r)) (w\<lparr>requests := (requests w)(r \<mapsto> new_ctx)\<rparr>)"
  have "requests ?w1 r = Some new_ctx" by simp
  from catch_not_awaiting [OF this, of env e] obtain c' where
    c: "requests (handler_catch env r e ?w1) r = Some c'"
       "handler_pc c' \<noteq> AwaitConnect" "handler_pc c' \<noteq> AwaitHandle" by blast
  show ?thesis
    by (simp add: createMcpRequestHandler_def begin_fails [OF assms]
        not_awaiting_connected [OF c(1,2)] not_awaiting_handled [OF c(1,3)])
qed

lemma handler_connect_fails:
  assumes "on_emit env (requestReceived r) = None" "on_new_transport env = None"
    and "on_connect env = Rejected e"
  shows "createMcpRequestHandler server env r w =
           handler_catch env r e (handler_begin server env r w)"
proof -
  let ?w1 = "handler_begin server env r w"
  from begin_ok(2) [OF assms(1,2), of server w] obtain c where
    c1: "requests ?w1 r = Some c" "handler_pc c = AwaitConnect" by simp
  from catch_not_awaiting [OF c1(1), of env e] obtain c' where
    c: "requests (handler_catch env r e ?w1) r = Some c'" "handler_pc c' \<noteq> AwaitHandle" by blast
  have "handler_connected env r ?w1 = handler_catch env r e ?w1"
    using c1 assms(3) by (simp add: handler_connected_def)
  then show ?thesis
    by (simp add: createMcpRequestHandler_def not_awaiting_handled [OF c])
qed

lemma handler_forward_fails:
  assumes "on_emit env (requestReceived r) = None" "on_new_transport env = None"
    and "on_connect env = Fulfilled ()" "snd (on_handleRequest env) = Rejected e"
  shows "createMcpRequestHandler server env r w =
           handler_catch env r e
             ((if fst (on_handleRequest env)
               then upd_ctx r (\<lambda>c. c\<lparr>headersSent := True\<rparr>) else (\<lambda>w. w))
                (upd_ctx r (\<lambda>c. c\<lparr>handler_pc := AwaitHandle\<rparr>)
                   (say r (HandleRequest (next_transport w) r) (handler_begin server env r w))))"
proof -
  let ?w1 = "handler_begin server env r w"
  note b = begin_ok [OF assms(1,2), where server = server and w = w]
  have 1: "handler_connected env r ?w1 =
             upd_ctx r (\<lambda>c. c\<lparr>handler_pc := AwaitHandle\<rparr>)
                   (say r (HandleRequest (next_transport w) r) ?w1)"
    using b(2) assms(3) by (simp add: handler_connected_def)
  show ?thesis
    using b(2) assms(4)
    by (simp add: createMcpRequestHandler_def 1 handler_handled_def Let_def)
qed

text \<open>
  Claim C8, as the code has it. Take a POST whose handling throws: a listener of the
  received event throws, or the transport constructor does, or \<^verbatim>\<open>server.connect\<close> is
  rejected, or \<^verbatim>\<open>transport.handleRequest\<close> is. Then the failed event carrying that
  error is emitted. When the transport had sent the headers before it failed, the handler
  sends nothing. When no response was sent yet, the handler answers 500 with the
  JSON-RPC body of code \<open>-32603\<close> and message \<open>Internal server error\<close>, provided the
  listeners of the failed event return; when one of them throws, the handler's promise
  is rejected with that error and no response is sent.
\<close>

theorem handler_failure_is_reported:
  assumes "requests w r = None"
    and "on_emit env (requestReceived r) = Some e
         \<or> (on_emit env (requestReceived r) = None \<and> on_new_transport env = Some e)
         \<or> (on_emit env (requestReceived r) = None \<and> on_new_transport env = None
             \<and> on_connect env = Rejected e)
         \<or> (on_emit env (requestReceived r) = None \<and> on_new_transport env = None
             \<and> on_connect env = Fulfilled () \<and> snd (on_handleRequest env) = Rejected e)"
    and "sent = (on_emit env (requestReceived r) = None \<and> on_new_transport env = None
                 \<and> on_connect env = Fulfilled () \<and> fst (on_handleRequest env))"
    and "w' = createMcpRequestHandler server env r w"
  shows "(r, Emit (requestFailed r e)) \<in> set (log w')
         \<and> (\<exists>c. requests w' r = Some c
              \<and> (sent \<longrightarrow> replied c = None \<and> headersSent c)
              \<and> (\<not> sent \<and> on_emit env (requestFailed r e) = None \<longrightarrow>
                   replied c = Some (500, \<lparr>jsonrpc = ''2.0'', error_code = - 32603,
                                          error_message = ''Internal server error'', id = None\<rparr>)
                   \<and> last (log w') = (r, Respond r 500
                                          \<lparr>jsonrpc = ''2.0'', error_code = - 32603,
                                           error_message = ''Internal server error'', id = None\<rparr>)
                   \<and> handler_pc c = Returned)
              \<and> (\<not> sent \<and> on_emit env (requestFailed r e) = Some x \<longrightarrow>
                   replied c = None \<and> \<not> headersSent c \<and> handler_pc c = Threw x))"
proof -
  consider
    (a) "on_emit env (requestReceived r) = Some e
         \<or> (on_emit env (requestReceived r) = None \<and> on_new_transport env = Some e)"
  | (b) "on_emit env (requestReceived r) = None" "on_new_transport env = None"
        "on_connect env = Rejected e"
  | (c) "on_emit env (requestReceived r) = None" "on_new_transport env = None"
        "on_connect env = Fulfilled ()" "snd (on_handleRequest env) = Rejected e"
    using assms(2) by auto
  then show ?thesis
  proof cases
    case a
    let ?w1 = "say r (Emit (requestReceived r)) (w\<lparr>requests := (requests w)(r \<mapsto> new_ctx)\<rparr>)"
    have w': "w' = handler_catch env r e ?w1" using assms(4) handler_begin_fails [OF a] by simp
    have c1: "requests ?w1 r = Some new_ctx" by simp
    have ns: "\<not> sent" using a assms(3) by auto
    have cc: "requests w' r =
       Some (case on_emit env (requestFailed r e) of
               Some x \<Rightarrow> new_ctx\<lparr>handler_pc := Threw x\<rparr>
             | None \<Rightarrow> new_ctx\<lparr>headersSent := True, replied := Some (500, internal_error),
                        handler_pc := Returned\<rparr>)"
      unfolding w' handler_catch_ctx [OF c1] by (simp add: new_ctx_def split: option.splits)
    have ll: "log w' = log w @ [(r, Emit (requestReceived r)), (r, Emit (requestFailed r e))]
                @ (if on_emit env (requestFailed r e) = None
                   then [(r, Respond r 500 internal_error)] else [])"
      unfolding w' handler_catch_log by (simp add: new_ctx_def)
    show ?thesis
      using ns
      by (cases "on_emit env (requestFailed r e)")
         (simp_all add: cc ll new_ctx_def internal_error_def)
  next
    case b
    let ?w1 = "handler_begin server env r w"
    have w': "w' = handler_catch env r e ?w1" using assms(4) handler_connect_fails [OF b] by simp
    note k = begin_ok [OF b(1,2), where server = server and w = w]
    have ns: "\<not> sent" using b assms(3) by auto
    have cc: "requests w' r =
       Some (case on_emit env (requestFailed r e) of
               Some x \<Rightarrow> new_ctx\<lparr>ctx_transport := Some (next_transport w),
                                  close_registered := True, handler_pc := Threw x\<rparr>
             | None \<Rightarrow> new_ctx\<lparr>ctx_transport := Some (next_transport w),
                                close_registered := True, headersSent := True,
                                replied := Some (500, internal_error), handler_pc := Returned\<rparr>)"
      unfolding w' handler_catch_ctx [OF k(2)] by (simp add: new_ctx_def split: option.splits)
    have ll: "log w' = log ?w1 @ [(r, Emit (requestFailed r e))]
                @ (if on_emit env (requestFailed r e) = None
                   then [(r, Respond r 500 internal_error)] else [])"
      unfolding w' handler_catch_log by (simp add: k(2) new_ctx_def)
    show ?thesis
      using ns
      by (cases "on_emit env (requestFailed r e)")
         (simp_all add: cc ll new_ctx_def internal_error_def)
  next
    case c
    let ?w1 = "handler_begin server env r w"
    let ?w2 = "(if fst (on_handleRequest env)
               then upd_ctx r (\<lambda>c. c\<lparr>headersSent := True\<rparr>) else (\<lambda>w. w))
                (upd_ctx r (\<lambda>c. c\<lparr>handler_pc := AwaitHandle\<rparr>)
                   (say r (HandleRequest (next_transport w) r) ?w1))"
    have w': "w' = handler_catch env r e ?w2" using assms(4) handler_forward_fails [OF c] by simp
    note k = begin_ok [OF c(1,2), where server = server and w = w]
    have s: "sent = fst (on_handleRequest env)" using c assms(3) by auto
    have c2: "requests ?w2 r =
                Some (new_ctx\<lparr>ctx_transport := Some (next_transport w), close_registered := True,
                              handler_pc := AwaitHandle, headersSent := fst (on_handleRequest env)\<rparr>)"
      by (simp add: k(2) new_ctx_def)
    let ?c2 = "new_ctx\<lparr>ctx_transport := Some (next_transport w), close_registered := True,
                              handler_pc := AwaitHandle, headersSent := fst (on_handleRequest env)\<rparr>"
    have cc: "requests w' r =
       Some (case on_emit env (requestFailed r e) of
               Some x \<Rightarrow> ?c2\<lparr>handler_pc := Threw x\<rparr>
             | None \<Rightarrow>
                 if fst (on_handleRequest env) then ?c2\<lparr>handler_pc := Returned\<rparr>
                 else ?c2\<lparr>headersSent := True, replied := Some (500, internal_error),
                          handler_pc := Returned\<rparr>)"
      unfolding w' handler_catch_ctx [OF c2] by (simp add: new_ctx_def split: option.splits)
    have ll: "log w' = log ?w2 @ [(r, Emit (requestFailed r e))]
                @ (if on_emit env (requestFailed r e) = None \<and> \<not> fst (on_handleRequest env)
                   then [(r, Respond r 500 internal_error)] else [])"
      unfolding w' handler_catch_log by (simp add: c2 new_ctx_def)
    show ?thesis
      by (cases "on_emit env (requestFailed r e)"; cases "fst (on_handleRequest env)")
         (simp_all add: cc ll s new_ctx_def internal_error_def)
  qed
qed

lemma connect_fails_run:
  "log (createMcpRequestHandler 0 connect_fails 1 no_requests)
     = [(1, Emit (requestReceived 1)), (1, NewTransport 0),
        (1, Connect 0 (StreamableHTTPServerTransport 0)),
        (1, Emit (requestFailed 1 ''connect failed'')), (1, Respond 1 500 internal_error)]"
  by (simp add: handler_connect_fails connect_fails_def quiet_def handler_catch_log
      begin_ok no_requests_def new_ctx_def)

theorem handler_failure_is_reported_witness:
  "requests no_requests 1 = None
   \<and> on_connect connect_fails = Rejected ''connect failed''
   \<and> (1, Emit (requestFailed 1 ''connect failed''))
       \<in> set (log (createMcpRequestHandler 0 connect_fails 1 no_requests))
   \<and> last (log (createMcpRequestHandler 0 connect_fails 1 no_requests))
       = (1, Respond 1 500 \<lparr>jsonrpc = ''2.0'', error_code = - 32603,
                            error_message = ''Internal server error'', id = None\<rparr>)
   \<and> map_option replied (requests (createMcpRequestHandler 0 connect_fails 1 no_requests) 1)
       = Some (Some (500, \<lparr>jsonrpc = ''2.0'', error_code = - 32603,
                           error_message = ''Internal server error'', id = None\<rparr>))"
proof -
  have 1: "requests no_requests 1 = None" by (simp add: no_requests_def)
  have 2: "on_emit connect_fails (requestReceived 1) = Some ''connect failed''
         \<or> (on_emit connect_fails (requestReceived 1) = None
             \<and> on_new_transport connect_fails = Some ''connect failed'')
         \<or> (on_emit connect_fails (requestReceived 1) = None \<and> on_new_transport connect_fails = None
             \<and> on_connect connect_fails = Rejected ''connect failed'')
         \<or> (on_emit connect_fails (requestReceived 1) = None \<and> on_new_transport connect_fails = None
             \<and> on_connect connect_fails = Fulfilled ()
             \<and> snd (on_handleRequest connect_fails) = Rejected ''connect failed'')"
    by (simp add: connect_fails_def quiet_def)
  have 3: "False = (on_emit connect_fails (requestReceived 1) = None
                 \<and> on_new_transport connect_fails = None
                 \<and> on_connect connect_fails = Fulfilled () \<and> fst (on_handleRequest connect_fails))"
    by (simp add: connect_fails_def quiet_def)
  have 4: "on_emit connect_fails (requestFailed 1 ''connect failed'') = None"
    "on_connect connect_fails = Rejected ''connect failed''"
    by (simp_all add: connect_fails_def quiet_def)
  from handler_failure_is_reported [OF 1 2 3 refl, of 0 "''none''"] 1 4 show ?thesis
    by auto
qed

text \<open>
  Claim C8 as stated fails: \<^verbatim>\<open>server.connect\<close> is rejected, no response has been sent,
  and a listener of the failed event throws. The handler's promise is rejected with the
  listener's error and no 500 is sent.
\<close>

theorem no_500_when_failed_listener_throws_counterexample:
  "(1, Emit (requestFailed 1 ''connect failed''))
     \<in> set (log (createMcpRequestHandler 0 failed_listener_throws 1 no_requests))
   \<and> map_option headersSent (requests (createMcpRequestHandler 0 failed_listener_throws 1 no_requests) 1)
       = Some False
   \<and> map_option replied (requests (createMcpRequestHandler 0 failed_listener_throws 1 no_requests) 1)
       = Some None
   \<and> map_option handler_pc (requests (createMcpRequestHandler 0 failed_listener_throws 1 no_requests) 1)
       = Some (Threw ''listener failed'')
   \<and> (1, Respond 1 500 internal_error)
       \<notin> set (log (createMcpRequestHandler 0 failed_listener_throws 1 no_requests))"
  by (simp add: handler_connect_fails failed_listener_throws_def quiet_def handler_catch_log
      handler_catch_ctx begin_ok no_requests_def new_ctx_def)

section \<open>Requests in flight together\<close>

subsection \<open>The effect of a phase\<close>

lemma actions_of_simps [simp]:
  "actions_of r [] = []"
  "actions_of r (xs @ ys) = actions_of r xs @ actions_of r ys"
  "actions_of r ((q, a) # xs) = (if q = r then a # actions_of r xs else actions_of r xs)"
  by (simp_all add: actions_of_def)

lemma actions_of_map_Pair_same: "actions_of r (map (Pair r) acts) = acts"
  by (induction acts) simp_all

lemma actions_of_map_Pair_other: "q \<noteq> r \<Longrightarrow> actions_of q (map (Pair r) acts) = []"
  by (induction acts) simp_all

lemma actions_of_map_Pair [simp]:
  "actions_of q (map (Pair r) acts) = (if q = r then acts else [])"
  by (simp add: actions_of_map_Pair_same actions_of_map_Pair_other)

lemma effect_refl: "effect server r w w"
  by (simp add: effect_def added_def)

lemma effectI_existing:
  assumes "requests w r = Some c" and "log w' = log w @ map (Pair r) acts"
    and "\<And>q. q \<noteq> r \<Longrightarrow> requests w' q = requests w q"
    and "next_transport w' = next_transport w"
    and "requests w' r = Some c'" and "ctx_transport c' = ctx_transport c"
    and "close_registered c' = close_registered c"
    and "teardown_pc c = Completed \<Longrightarrow> teardown_pc c' = Completed"
    and "\<And>a ob. a \<in> set acts \<Longrightarrow> ob \<in> set (uses a) \<Longrightarrow> object_ok server (Some c') ob"
    and "count_list (concat (map event_of acts)) (requestCompleted r r)
           = (if teardown_pc c' = Completed \<and> teardown_pc c \<noteq> Completed then 1 else 0)"
  shows "effect server r w w'"
proof -
  have ad: "added r w w' = acts" by (simp add: added_def assms(2))
  show ?thesis
    unfolding effect_def ad
    using assms by (auto simp del: set_append)
qed

lemma effectI_new:
  assumes "requests w r = None" and "log w' = log w @ map (Pair r) acts"
    and "\<And>q. q \<noteq> r \<Longrightarrow> requests w' q = requests w q"
    and "requests w' r = Some c'" and "teardown_pc c' = Open"
    and "count_list (concat (map event_of acts)) (requestCompleted r r) = 0"
    and "(ctx_transport c' = None \<and> \<not> close_registered c' \<and> next_transport w' = next_transport w)
         \<or> (ctx_transport c' = Some (next_transport w) \<and> next_transport w' = Suc (next_transport w))"
    and "\<And>a ob. a \<in> set acts \<Longrightarrow> ob \<in> set (uses a) \<Longrightarrow> object_ok server (Some c') ob"
  shows "effect server r w w'"
proof -
  have ad: "added r w w' = acts" by (simp add: added_def assms(2))
  have "\<exists>c'. requests w' r = Some c' \<and> teardown_pc c' = Open
                    \<and> count_list (concat (map event_of acts)) (requestCompleted r r) = 0
                    \<and> ((ctx_transport c' = None \<and> \<not> close_registered c'
                         \<and> next_transport w' = next_transport w)
                        \<or> (ctx_transport c' = Some (next_transport w)
                            \<and> next_transport w' = Suc (next_transport w)))"
    using assms(4-7) by blast
  then show ?thesis
    unfolding effect_def ad
    using assms(1-4,8) by (auto simp del: set_append)
qed

lemma handler_catch_effect:
  assumes "requests w r = Some c"
  shows "effect server r w (handler_catch env r e w)"
proof (rule effectI_existing [OF assms])
  show "log (handler_catch env r e w) =
          log w @ map (Pair r)
            (Emit (requestFailed r e)
             # (if on_emit env (requestFailed r e) = None \<and> \<not> headersSent c
                then [Respond r 500 internal_error] else []))"
    using assms by (simp add: handler_catch_log)
  show "requests (handler_catch env r e w) r =
       Some (case on_emit env (requestFailed r e) of
               Some x \<Rightarrow> c\<lparr>handler_pc := Threw x\<rparr>
             | None \<Rightarrow>
                 if headersSent c then c\<lparr>handler_pc := Returned\<rparr>
                 else c\<lparr>headersSent := True, replied := Some (500, internal_error),
                        handler_pc := Returned\<rparr>)"
    by (rule handler_catch_ctx [OF assms])
qed (auto simp: handler_catch_frame split: option.splits)

lemma handler_begin_effect:
  assumes "requests w r = None"
  shows "effect server r w (handler_begin server env r w)"
proof (cases "on_emit env (requestReceived r) = None \<and> on_new_transport env = None")
  case True
  note b = begin_ok [where server = server and w = w and env = env and r = r]
  show ?thesis
  proof (rule effectI_new [OF assms])
    show "log (handler_begin server env r w) =
            log w @ map (Pair r) [Emit (requestReceived r), NewTransport (next_transport w),
                                  Connect server (StreamableHTTPServerTransport (next_transport w))]"
      using True by (simp add: b(1))
    show "requests (handler_begin server env r w) r =
           Some (new_ctx\<lparr>ctx_transport := Some (next_transport w), close_registered := True,
                         handler_pc := AwaitConnect\<rparr>)"
      using True by (simp add: b(2))
  qed (use True in \<open>auto simp: b(3,4) new_ctx_def object_ok_def\<close>)
next
  case False
  then obtain e where f: "on_emit env (requestReceived r) = Some e
           \<or> (on_emit env (requestReceived r) = None \<and> on_new_transport env = Some e)"
    by (cases "on_emit env (requestReceived r)"; cases "on_new_transport env") auto
  let ?w1 = "say r (Emit (requestReceived r)) (w\<lparr>requests := (requests w)(r \<mapsto> new_ctx)\<rparr>)"
  have c1: "requests ?w1 r = Some new_ctx" by simp
  show ?thesis
  proof (rule effectI_new [OF assms])
    show "log (handler_begin server env r w) =
            log w @ map (Pair r)
              ([Emit (requestReceived r), Emit (requestFailed r e)]
               @ (if on_emit env (requestFailed r e) = None
                  then [Respond r 500 internal_error] else []))"
      by (simp add: begin_fails [OF f] handler_catch_log new_ctx_def)
    show "requests (handler_begin server env r w) r =
       Some (case on_emit env (requestFailed r e) of
               Some x \<Rightarrow> new_ctx\<lparr>handler_pc := Threw x\<rparr>
             | None \<Rightarrow>
                 if headersSent new_ctx then new_ctx\<lparr>handler_pc := Returned\<rparr>
                 else new_ctx\<lparr>headersSent := True, replied := Some (500, internal_error),
                        handler_pc := Returned\<rparr>)"
      unfolding begin_fails [OF f] by (rule handler_catch_ctx [OF c1])
    show "requests (handler_begin server env r w) q = requests w q" if "q \<noteq> r" for q
      using that by (simp add: begin_fails [OF f] handler_catch_frame)
    show "(ctx_transport (case on_emit env (requestFailed r e) of
               Some x \<Rightarrow> new_ctx\<lparr>handler_pc := Threw x\<rparr>
             | None \<Rightarrow>
                 if headersSent new_ctx then new_ctx\<lparr>handler_pc := Returned\<rparr>
                 else new_ctx\<lparr>headersSent := True, replied := Some (500, internal_error),
                        handler_pc := Returned\<rparr>) = None
          \<and> \<not> close_registered (case on_emit env (requestFailed r e) of
               Some x \<Rightarrow> new_ctx\<lparr>handler_pc := Threw x\<rparr>
             | None \<Rightarrow>
                 if headersSent new_ctx then new_ctx\<lparr>handler_pc := Returned\<rparr>
                 else new_ctx\<lparr>headersSent := True, replied := Some (500, internal_error),
                        handler_pc := Returned\<rparr>)
          \<and> next_transport (handler_begin server env r w) = next_transport w)
         \<or> (ctx_transport (case on_emit env (requestFailed r e) of
               Some x \<Rightarrow> new_ctx\<lparr>handler_pc := Threw x\<rparr>
             | None \<Rightarrow>
                 if headersSent new_ctx then new_ctx\<lparr>handler_pc := Returned\<rparr>
                 else new_ctx\<lparr>headersSent := True, replied := Some (500, internal_error),
                        handler_pc := Returned\<rparr>) = Some (next_transport w)
             \<and> next_transport (handler_begin server env r w) = Suc (next_transport w))"
      by (simp add: begin_fails [OF f] handler_catch_frame new_ctx_def split: option.splits)
  qed (auto simp: new_ctx_def object_ok_def split: option.splits)
qed

lemma handler_connected_effect: "effect server r w (handler_connected env r w)"
proof (cases "requests w r")
  case None
  then show ?thesis by (simp add: handler_connected_def effect_refl)
next
  case (Some c)
  show ?thesis
  proof (cases "handler_pc c = AwaitConnect")
    case False
    with Some show ?thesis by (simp add: handler_connected_def effect_refl)
  next
    case True
    show ?thesis
    proof (cases "on_connect env")
      case Pending
      with Some True show ?thesis by (simp add: handler_connected_def effect_refl)
    next
      case (Rejected e)
      with Some True have "handler_connected env r w = handler_catch env r e w"
        by (simp add: handler_connected_def)
      with handler_catch_effect [OF Some] show ?thesis by simp
    next
      case (Fulfilled u)
      show ?thesis
      proof (cases "ctx_transport c")
        case None
        with Some True Fulfilled show ?thesis by (simp add: handler_connected_def effect_refl)
      next
        case t: (Some t)
        have eq: "handler_connected env r w =
                    upd_ctx r (\<lambda>c. c\<lparr>handler_pc := AwaitHandle\<rparr>) (say r (HandleRequest t r) w)"
          using Some True Fulfilled t by (simp add: handler_connected_def)
        show ?thesis
          unfolding eq
          by (rule effectI_existing [OF Some, where acts = "[HandleRequest t r]"
                and c' = "c\<lparr>handler_pc := AwaitHandle\<rparr>"])
             (auto simp: Some t object_ok_def)
      qed
    qed
  qed
qed

lemma handler_handled_effect: "effect server r w (handler_handled env r w)"
proof (cases "requests w r")
  case None
  then show ?thesis by (simp add: handler_handled_def effect_refl)
next
  case (Some c)
  show ?thesis
  proof (cases "handler_pc c = AwaitHandle")
    case False
    with Some show ?thesis by (simp add: handler_handled_def effect_refl)
  next
    case True
    let ?w1 = "if fst (on_handleRequest env)
               then upd_ctx r (\<lambda>c. c\<lparr>headersSent := True\<rparr>) w else w"
    let ?c1 = "if fst (on_handleRequest env) then c\<lparr>headersSent := True\<rparr> else c"
    have c1: "requests ?w1 r = Some ?c1" by (simp add: Some)
    have l1: "log ?w1 = log w" "next_transport ?w1 = next_transport w" by simp_all
    have o1: "requests ?w1 q = requests w q" if "q \<noteq> r" for q using that by simp
    show ?thesis
    proof (cases "snd (on_handleRequest env)")
      case Pending
      have eq: "handler_handled env r w = ?w1"
        using Some True Pending by (simp add: handler_handled_def Let_def)
      show ?thesis
        unfolding eq
        by (rule effectI_existing [OF Some, where acts = "[]" and c' = ?c1])
           (auto simp: Some)
    next
      case (Fulfilled u)
      have eq: "handler_handled env r w = upd_ctx r (\<lambda>c. c\<lparr>handler_pc := Returned\<rparr>) ?w1"
        using Some True Fulfilled by (simp add: handler_handled_def Let_def)
      show ?thesis
        unfolding eq
        by (rule effectI_existing [OF Some, where acts = "[]" and c' = "?c1\<lparr>handler_pc := Returned\<rparr>"])
           (auto simp: Some)
    next
      case (Rejected e)
      have eq: "handler_handled env r w = handler_catch env r e ?w1"
        using Some True Rejected by (simp add: handler_handled_def Let_def)
      show ?thesis
        unfolding eq
      proof (rule effectI_existing [OF Some])
        show "log (handler_catch env r e ?w1) =
          log w @ map (Pair r)
            (Emit (requestFailed r e)
             # (if on_emit env (requestFailed r e) = None \<and> \<not> headersSent ?c1
                then [Respond r 500 internal_error] else []))"
          unfolding handler_catch_log l1 using c1 by simp
        show "requests (handler_catch env r e ?w1) r =
          Some (case on_emit env (requestFailed r e) of
               Some x \<Rightarrow> ?c1\<lparr>handler_pc := Threw x\<rparr>
             | None \<Rightarrow>
                 if headersSent ?c1 then ?c1\<lparr>handler_pc := Returned\<rparr>
                 else ?c1\<lparr>headersSent := True, replied := Some (500, internal_error),
                        handler_pc := Returned\<rparr>)"
          by (rule handler_catch_ctx [OF c1])
        show "requests (handler_catch env r e ?w1) q = requests w q" if "q \<noteq> r" for q
          using that o1 by (simp add: handler_catch_frame)
        show "next_transport (handler_catch env r e ?w1) = next_transport w"
          by (simp add: handler_catch_frame)
      qed (auto split: option.splits)
    qed
  qed
qed

lemma close_event_effect: "effect server r w (close_event r w)"
proof (cases "requests w r")
  case None
  then show ?thesis by (simp add: close_event_def effect_refl)
next
  case (Some c)
  show ?thesis
  proof (cases "close_registered c \<and> teardown_pc c = Open \<and> ctx_transport c \<noteq> None")
    case False
    with Some show ?thesis by (auto simp: close_event_def effect_refl split: option.splits)
  next
    case True
    then obtain t where t: "ctx_transport c = Some t" by auto
    have eq: "close_event r w =
                upd_ctx r (\<lambda>c. c\<lparr>teardown_pc := AwaitTransportClose\<rparr>) (say r (CloseTransport t) w)"
      using Some True t by (simp add: close_event_def)
    show ?thesis
      unfolding eq
      by (rule effectI_existing [OF Some, where acts = "[CloseTransport t]"
            and c' = "c\<lparr>teardown_pc := AwaitTransportClose\<rparr>"])
         (use True in \<open>auto simp: Some t object_ok_def\<close>)
  qed
qed

lemma teardown_finish_effect:
  assumes "requests w r = Some c" "teardown_pc c \<noteq> Completed"
  shows "effect server r w (teardown_finish r failure w)"
  by (rule effectI_existing [OF assms(1),
        where acts = "(case failure of None \<Rightarrow> [] | Some e \<Rightarrow> [Emit (requestFailed r e)])
                      @ [Emit (requestCompleted r r)]"
        and c' = "c\<lparr>teardown_pc := Completed\<rparr>"])
     (use assms in \<open>auto simp: teardown_finish_def Let_def split: option.splits\<close>)

lemma transport_closed_effect: "effect server r w (transport_closed server env r w)"
proof (cases "requests w r")
  case None
  then show ?thesis by (simp add: transport_closed_def effect_refl)
next
  case (Some c)
  show ?thesis
  proof (cases "teardown_pc c = AwaitTransportClose")
    case False
    with Some show ?thesis by (simp add: transport_closed_def effect_refl)
  next
    case True
    show ?thesis
    proof (cases "on_transport_close env")
      case Pending
      with Some True show ?thesis by (simp add: transport_closed_def effect_refl)
    next
      case (Rejected e)
      with Some True have "transport_closed server env r w = teardown_finish r (Some e) w"
        by (simp add: transport_closed_def)
      with teardown_finish_effect [OF Some, of server "Some e"] True show ?thesis by simp
    next
      case (Fulfilled u)
      have eq: "transport_closed server env r w =
                  upd_ctx r (\<lambda>c. c\<lparr>teardown_pc := AwaitServerClose\<rparr>)
                    (say r (CloseMcpServer server) w)"
        using Some True Fulfilled by (simp add: transport_closed_def)
      show ?thesis
        unfolding eq
        by (rule effectI_existing [OF Some, where acts = "[CloseMcpServer server]"
              and c' = "c\<lparr>teardown_pc := AwaitServerClose\<rparr>"])
           (use True in \<open>auto simp: Some object_ok_def\<close>)
    qed
  qed
qed

lemma server_closed_effect: "effect server r w (server_closed env r w)"
proof (cases "requests w r")
  case None
  then show ?thesis by (simp add: server_closed_def effect_refl)
next
  case (Some c)
  show ?thesis
  proof (cases "teardown_pc c = AwaitServerClose")
    case False
    with Some show ?thesis by (simp add: server_closed_def effect_refl)
  next
    case True
    show ?thesis
    proof (cases "on_server_close env")
      case Pending
      with Some True show ?thesis by (simp add: server_closed_def effect_refl)
    next
      case (Rejected e)
      with Some True have "server_closed env r w = teardown_finish r (Some e) w"
        by (simp add: server_closed_def)
      with teardown_finish_effect [OF Some, of server "Some e"] True show ?thesis by simp
    next
      case (Fulfilled u)
      with Some True have "server_closed env r w = teardown_finish r None w"
        by (simp add: server_closed_def)
      with teardown_finish_effect [OF Some, of server None] True show ?thesis by simp
    qed
  qed
qed

lemma exec_effect: "effect server r w (exec server (r, ph, env) w)"
  by (cases ph)
     (auto simp: handler_begin_effect handler_connected_effect handler_handled_effect
        close_event_effect transport_closed_effect server_closed_effect effect_refl
        split: option.splits)

subsection \<open>The invariant of the schedules\<close>

lemma sound_no_requests: "sound server no_requests"
  by (simp add: sound_def no_requests_def)

lemma object_ok_same_transport:
  "object_ok server (Some c) ob \<Longrightarrow> ctx_transport c' = ctx_transport c \<Longrightarrow>
     object_ok server (Some c') ob"
  by (auto simp: object_ok_def split: obj.splits)

lemma completions_split:
  "actions_of q (log w') = actions_of q (log w) @ acts \<Longrightarrow>
     completions q w' = completions q w
        + count_list (concat (map event_of acts)) (requestCompleted q q)"
  by (simp add: completions_def events_of_def)

lemma effect_sound:
  assumes e: "effect server r w w'" and s: "sound server w"
  shows "sound server w'"
proof (cases "w' = w")
  case True
  with s show ?thesis by simp
next
  case changed: False
  from e have app: "actions_of r (log w') = actions_of r (log w) @ added r w w'"
    and other: "\<And>q. q \<noteq> r \<Longrightarrow> actions_of q (log w') = actions_of q (log w)
                               \<and> requests w' q = requests w q"
    and ok: "\<And>a ob. a \<in> set (added r w w') \<Longrightarrow> ob \<in> set (uses a)
                  \<Longrightarrow> object_ok server (requests w' r) ob"
    by (auto simp: effect_def simp del: set_append)
  from s have s1: "\<And>q c t. requests w q = Some c \<Longrightarrow> ctx_transport c = Some t \<Longrightarrow> t < next_transport w"
    and s2: "\<And>q a ob. a \<in> set (actions_of q (log w)) \<Longrightarrow> ob \<in> set (uses a)
                  \<Longrightarrow> object_ok server (requests w q) ob"
    and s3: "\<And>q. requests w q = None \<Longrightarrow> actions_of q (log w) = []"
    and s4: "\<And>q c. requests w q = Some c \<Longrightarrow>
                 completions q w = (if teardown_pc c = Completed then 1 else 0)"
    and s5: "\<And>q c. requests w q = Some c \<Longrightarrow> close_registered c \<Longrightarrow> ctx_transport c \<noteq> None"
    and s6: "\<And>q1 q2 c1 c2 t. q1 \<noteq> q2 \<Longrightarrow> requests w q1 = Some c1 \<Longrightarrow> requests w q2 = Some c2
                 \<Longrightarrow> ctx_transport c1 = Some t \<Longrightarrow> ctx_transport c2 \<noteq> Some t"
    by (auto simp: sound_def simp del: set_append)
  show ?thesis
  proof (cases "requests w r")
    case (Some c)
    with e obtain c' where
      nt: "next_transport w' = next_transport w"
      and c': "requests w' r = Some c'" and tr: "ctx_transport c' = ctx_transport c"
      and cr: "close_registered c' = close_registered c"
      and stay: "teardown_pc c = Completed \<longrightarrow> teardown_pc c' = Completed"
      and cnt: "count_list (concat (map event_of (added r w w'))) (requestCompleted r r)
                  = (if teardown_pc c' = Completed \<and> teardown_pc c \<noteq> Completed then 1 else 0)"
      by (auto simp: effect_def simp del: set_append)
    have same_tr: "\<exists>c0. requests w q = Some c0 \<and> ctx_transport c0 = ctx_transport d
                        \<and> close_registered c0 = close_registered d"
      if "requests w' q = Some d" for q d
      using that other [of q] Some c' tr cr by (cases "q = r") auto
    have i1: "t < next_transport w'" if "requests w' q = Some d" "ctx_transport d = Some t" for q d t
      using same_tr [OF that(1)] that(2) s1 nt by auto
    have i2: "object_ok server (requests w' q) ob"
      if "a \<in> set (actions_of q (log w'))" "ob \<in> set (uses a)" for q a ob
    proof (cases "q = r")
      case False
      with that other [of q] s2 [of a q ob] show ?thesis by simp
    next
      case True
      from that(1) True app have "a \<in> set (actions_of r (log w)) \<or> a \<in> set (added r w w')" by auto
      then show ?thesis
      proof
        assume "a \<in> set (actions_of r (log w))"
        from s2 [OF this that(2)] Some have "object_ok server (Some c) ob" by simp
        from object_ok_same_transport [OF this tr] c' True show ?thesis by simp
      next
        assume "a \<in> set (added r w w')"
        from ok [OF this that(2)] True show ?thesis by simp
      qed
    qed
    have i3: "actions_of q (log w') = []" if "requests w' q = None" for q
      using that other [of q] s3 [of q] c' by (cases "q = r") auto
    have i4: "completions q w' = (if teardown_pc d = Completed then 1 else 0)"
      if "requests w' q = Some d" for q d
    proof (cases "q = r")
      case False
      with that other [of q] s4 [of q d] show ?thesis by (simp add: completions_def events_of_def)
    next
      case True
      with that c' have d: "d = c'" by simp
      from completions_split [OF app] cnt s4 [OF Some] stay True d show ?thesis by auto
    qed
    have i5: "ctx_transport d \<noteq> None" if "requests w' q = Some d" "close_registered d" for q d
    proof -
      from same_tr [OF that(1)] obtain c0 where c0: "requests w q = Some c0"
        "ctx_transport c0 = ctx_transport d" "close_registered c0 = close_registered d" by blast
      from s5 [OF c0(1)] c0(2,3) that(2) show ?thesis by simp
    qed
    have i6: "ctx_transport d2 \<noteq> Some t"
      if "q1 \<noteq> q2" "requests w' q1 = Some d1" "requests w' q2 = Some d2" "ctx_transport d1 = Some t"
      for q1 q2 d1 d2 t
    proof -
      from same_tr [OF that(2)] obtain e1 where e1: "requests w q1 = Some e1"
        "ctx_transport e1 = ctx_transport d1" by blast
      from same_tr [OF that(3)] obtain e2 where e2: "requests w q2 = Some e2"
        "ctx_transport e2 = ctx_transport d2" by blast
      from s6 [OF that(1) e1(1) e2(1)] e1(2) e2(2) that(4) show ?thesis by simp
    qed
    show ?thesis
      unfolding sound_def
      using i1 i2 i3 i4 i5 i6 by (auto simp del: set_append)
  next
    case None
    with e changed obtain c' where
      c': "requests w' r = Some c'" and op: "teardown_pc c' = Open"
      and cnt: "count_list (concat (map event_of (added r w w'))) (requestCompleted r r) = 0"
      and al: "(ctx_transport c' = None \<and> \<not> close_registered c' \<and> next_transport w' = next_transport w)
               \<or> (ctx_transport c' = Some (next_transport w)
                   \<and> next_transport w' = Suc (next_transport w))"
      by (auto simp: effect_def simp del: set_append)
    from al have mono: "next_transport w \<le> next_transport w'" by auto
    from s3 [OF None] have old: "actions_of r (log w) = []" .
    have i1: "t < next_transport w'" if "requests w' q = Some d" "ctx_transport d = Some t" for q d t
    proof (cases "q = r")
      case False
      with that other [of q] s1 [of q d t] mono show ?thesis by auto
    next
      case True
      with that c' al show ?thesis by auto
    qed
    have i2: "object_ok server (requests w' q) ob"
      if "a \<in> set (actions_of q (log w'))" "ob \<in> set (uses a)" for q a ob
    proof (cases "q = r")
      case False
      with that other [of q] s2 [of a q ob] show ?thesis by simp
    next
      case True
      from that(1) True app old have "a \<in> set (added r w w')" by simp
      from ok [OF this that(2)] True show ?thesis by simp
    qed
    have i3: "actions_of q (log w') = []" if "requests w' q = None" for q
      using that other [of q] s3 [of q] c' by (cases "q = r") auto
    have i4: "completions q w' = (if teardown_pc d = Completed then 1 else 0)"
      if "requests w' q = Some d" for q d
    proof (cases "q = r")
      case False
      with that other [of q] s4 [of q d] show ?thesis by (simp add: completions_def events_of_def)
    next
      case True
      with that c' have d: "d = c'" by simp
      have "completions r w = 0" by (simp add: completions_def events_of_def old)
      with completions_split [OF app] cnt op True d show ?thesis by simp
    qed
    have i5: "ctx_transport d \<noteq> None" if "requests w' q = Some d" "close_registered d" for q d
    proof (cases "q = r")
      case False
      with that other [of q] s5 [of q d] show ?thesis by simp
    next
      case True
      with that c' al show ?thesis by auto
    qed
    have i6: "ctx_transport d2 \<noteq> Some t"
      if "q1 \<noteq> q2" "requests w' q1 = Some d1" "requests w' q2 = Some d2" "ctx_transport d1 = Some t"
      for q1 q2 d1 d2 t
    proof (cases "q1 = r")
      case True
      with that c' have d1: "d1 = c'" by simp
      from that(1) True have "q2 \<noteq> r" by simp
      with that(3) other [of q2] have q2: "requests w q2 = Some d2" by simp
      from d1 that(4) al have t: "t = next_transport w" by auto
      show ?thesis
      proof
        assume "ctx_transport d2 = Some t"
        from s1 [OF q2 this] t show False by simp
      qed
    next
      case False
      with that(2) other [of q1] have q1: "requests w q1 = Some d1" by simp
      show ?thesis
      proof (cases "q2 = r")
        case True
        with that c' have d2: "d2 = c'" by simp
        from s1 [OF q1 that(4)] have "t < next_transport w" .
        with d2 al show ?thesis by auto
      next
        case q2r: False
        with that(3) other [of q2] have "requests w q2 = Some d2" by simp
        from s6 [OF that(1) q1 this that(4)] show ?thesis .
      qed
    qed
    show ?thesis
      unfolding sound_def
      using i1 i2 i3 i4 i5 i6 by (auto simp del: set_append)
  qed
qed

lemma exec_sound: "sound server w \<Longrightarrow> sound server (exec server x w)"
proof -
  assume s: "sound server w"
  obtain r ph env where x: "x = (r, ph, env)" by (cases x) auto
  from effect_sound [OF exec_effect s] show ?thesis unfolding x .
qed

lemma schedule_sound: "sound server w \<Longrightarrow> sound server (schedule server xs w)"
  by (induction xs arbitrary: w) (simp_all add: exec_sound)

subsection \<open>A transport for each request, one engine for all\<close>

lemma in_context_of:
  "ob \<in> set (context_of r w) \<longleftrightarrow> (\<exists>a \<in> set (actions_of r (log w)). ob \<in> set (uses a))"
  by (auto simp: context_of_def)

lemma sound_objects:
  assumes "sound server w" "ob \<in> set (context_of r w)"
  shows "object_ok server (requests w r) ob"
proof -
  from assms(2) obtain a where "a \<in> set (actions_of r (log w))" "ob \<in> set (uses a)"
    by (auto simp: in_context_of)
  with assms(1) show ?thesis by (auto simp: sound_def)
qed

text \<open>
  What the handler does for the isolation of requests. In every world that an
  interleaving of request phases reaches, for two different requests: a transport that
  the code of one of them constructed, connected, forwarded to or called \<^verbatim>\<open>close\<close> on is
  the transport of that request, and none that the code of the other one called; and
  every engine that the code of a request calls is the one engine of the handler, which
  all requests share.
\<close>

lemma own_transport_shared_engine:
  assumes "r1 \<noteq> r2" and "w = schedule server xs no_requests"
  shows "(\<forall>t. TransportObj t \<in> set (context_of r1 w) \<longrightarrow>
              TransportObj t \<notin> set (context_of r2 w)
              \<and> (\<exists>c. requests w r1 = Some c \<and> ctx_transport c = Some t))
         \<and> (\<forall>e. EngineObj e \<in> set (context_of r1 w) \<longrightarrow> e = server)
         \<and> (\<forall>c1 c2 t. requests w r1 = Some c1 \<and> requests w r2 = Some c2
                \<and> ctx_transport c1 = Some t \<longrightarrow> ctx_transport c2 \<noteq> Some t)"
proof -
  have s: "sound server w"
    unfolding assms(2) by (rule schedule_sound [OF sound_no_requests])
  have own: "\<exists>c. requests w r = Some c \<and> ctx_transport c = Some t"
    if "TransportObj t \<in> set (context_of r w)" for r t
    using sound_objects [OF s that] by (auto simp: object_ok_def split: option.splits)
  have dist: "ctx_transport c2 \<noteq> Some t"
    if "requests w r1 = Some c1" "requests w r2 = Some c2" "ctx_transport c1 = Some t" for c1 c2 t
    using s assms(1) that unfolding sound_def by blast
  have a: "TransportObj t \<notin> set (context_of r2 w)
           \<and> (\<exists>c. requests w r1 = Some c \<and> ctx_transport c = Some t)"
    if h: "TransportObj t \<in> set (context_of r1 w)" for t
  proof
    from own [OF h] obtain c1 where c1: "requests w r1 = Some c1" "ctx_transport c1 = Some t"
      by blast
    show "TransportObj t \<notin> set (context_of r2 w)"
    proof
      assume "TransportObj t \<in> set (context_of r2 w)"
      from own [OF this] obtain c2 where "requests w r2 = Some c2" "ctx_transport c2 = Some t"
        by blast
      with dist [OF c1(1) this(1) c1(2)] show False by simp
    qed
    from c1 show "\<exists>c. requests w r1 = Some c \<and> ctx_transport c = Some t" by blast
  qed
  have b: "e = server" if "EngineObj e \<in> set (context_of r1 w)" for e
    using sound_objects [OF s that] by (simp add: object_ok_def)
  from a b dist show ?thesis by blast
qed




section \<open>Completion of a request\<close>

text \<open>The handler of one request and its close chain are schedules of that request alone.\<close>

lemma handler_as_schedule:
  "requests w r = None \<Longrightarrow>
     schedule server [(r, Arrive, env), (r, ConnectSettled, env), (r, HandleSettled, env)] w
       = createMcpRequestHandler server env r w"
  by (simp add: createMcpRequestHandler_def)

lemma on_close_as_schedule:
  "schedule server [(r, CloseEvent, env), (r, TransportClosed, env), (r, ServerClosed, env)] w
     = on_close server env r w"
  by (simp add: on_close_def)

lemma soundD:
  assumes "sound server w"
  shows "requests w q = None \<Longrightarrow> actions_of q (log w) = []"
    and "requests w q = Some c \<Longrightarrow> completions q w = (if teardown_pc c = Completed then 1 else 0)"
    and "requests w q = Some c \<Longrightarrow> close_registered c \<Longrightarrow> ctx_transport c \<noteq> None"
proof -
  note u = assms [unfolded sound_def]
  note a = u [THEN conjunct2, THEN conjunct2, THEN conjunct1]
  note b = u [THEN conjunct2, THEN conjunct2, THEN conjunct2, THEN conjunct1]
  note c = u [THEN conjunct2, THEN conjunct2, THEN conjunct2, THEN conjunct2, THEN conjunct1]
  from a show "requests w q = None \<Longrightarrow> actions_of q (log w) = []" by blast
  from b show "requests w q = Some c \<Longrightarrow>
      completions q w = (if teardown_pc c = Completed then 1 else 0)" by blast
  from c show "requests w q = Some c \<Longrightarrow> close_registered c \<Longrightarrow> ctx_transport c \<noteq> None"
    by blast
qed

lemma teardown_finish_simps:
  "log (teardown_finish r failure w) =
     log w @ map (Pair r) ((case failure of None \<Rightarrow> [] | Some e \<Rightarrow> [Emit (requestFailed r e)])
                           @ [Emit (requestCompleted r r)])"
  "requests (teardown_finish r failure w) q =
     (if q = r then map_option (\<lambda>c. c\<lparr>teardown_pc := Completed\<rparr>) (requests w r)
      else requests w q)"
  by (simp_all add: teardown_finish_def Let_def split: option.splits)

lemma events_of_append:
  "log w' = log w @ map (Pair r) acts \<Longrightarrow>
     events_of r w' = events_of r w @ concat (map event_of acts)"
  by (simp add: events_of_def)

lemma transport_closed_at:
  "requests w r = Some c \<Longrightarrow> teardown_pc c = AwaitTransportClose \<Longrightarrow>
     transport_closed server env r w =
       (case on_transport_close env of
          Pending \<Rightarrow> w
        | Rejected e \<Rightarrow> teardown_finish r (Some e) w
        | Fulfilled u \<Rightarrow>
            upd_ctx r (\<lambda>c. c\<lparr>teardown_pc := AwaitServerClose\<rparr>)
              (say r (CloseMcpServer server) w))"
  by (simp add: transport_closed_def)

lemma server_closed_at:
  "requests w r = Some c \<Longrightarrow> teardown_pc c = AwaitServerClose \<Longrightarrow>
     server_closed env r w =
       (case on_server_close env of
          Pending \<Rightarrow> w
        | Rejected e \<Rightarrow> teardown_finish r (Some e) w
        | Fulfilled u \<Rightarrow> teardown_finish r None w)"
  by (simp add: server_closed_def)

lemma server_closed_skip:
  "requests w r = Some c \<Longrightarrow> teardown_pc c \<noteq> AwaitServerClose \<Longrightarrow>
     server_closed env r w = w"
  by (simp add: server_closed_def)

text \<open>The whole chain after the close event, for a request with its close handler in place.\<close>

lemma on_close_log:
  assumes "requests w r = Some c" "close_registered c" "teardown_pc c = Open"
    and "ctx_transport c = Some t" "teardown_settles env"
  shows "log (on_close server env r w) =
           log w @ map (Pair r)
             ([CloseTransport t]
              @ (case on_transport_close env of
                   Fulfilled u \<Rightarrow> [CloseMcpServer server] | _ \<Rightarrow> [])
              @ (case teardown_failure env of None \<Rightarrow> [] | Some e \<Rightarrow> [Emit (requestFailed r e)])
              @ [Emit (requestCompleted r r)])"
proof -
  let ?w1 = "upd_ctx r (\<lambda>c. c\<lparr>teardown_pc := AwaitTransportClose\<rparr>) (say r (CloseTransport t) w)"
  have 1: "close_event r w = ?w1" using assms(1-4) by (simp add: close_event_def)
  have c1: "requests ?w1 r = Some (c\<lparr>teardown_pc := AwaitTransportClose\<rparr>)"
    using assms(1) by simp
  show ?thesis
  proof (cases "on_transport_close env")
    case Pending
    with assms(5) show ?thesis by (simp add: teardown_settles_def)
  next
    case (Rejected e)
    have 2: "transport_closed server env r ?w1 = teardown_finish r (Some e) ?w1"
      by (simp add: transport_closed_at [OF c1] Rejected)
    have c3: "requests (teardown_finish r (Some e) ?w1) r
                = Some (c\<lparr>teardown_pc := Completed\<rparr>)"
      by (simp add: teardown_finish_simps(2) assms(1))
    have 3: "server_closed env r (teardown_finish r (Some e) ?w1) = teardown_finish r (Some e) ?w1"
      by (rule server_closed_skip [OF c3]) simp
    show ?thesis
      by (simp add: on_close_def 1 2 3 teardown_finish_simps Rejected teardown_failure_def)
  next
    case (Fulfilled u)
    let ?w2 = "upd_ctx r (\<lambda>c. c\<lparr>teardown_pc := AwaitServerClose\<rparr>) (say r (CloseMcpServer server) ?w1)"
    have 2: "transport_closed server env r ?w1 = ?w2"
      by (simp add: transport_closed_at [OF c1] Fulfilled)
    have c2: "requests ?w2 r = Some (c\<lparr>teardown_pc := AwaitServerClose\<rparr>)"
      using assms(1) by simp
    show ?thesis
    proof (cases "on_server_close env")
      case Pending
      with assms(5) Fulfilled show ?thesis by (simp add: teardown_settles_def)
    next
      case r: (Rejected e)
      have 3: "server_closed env r ?w2 = teardown_finish r (Some e) ?w2"
        by (simp add: server_closed_at [OF c2] r)
      show ?thesis
        by (simp add: on_close_def 1 2 3 teardown_finish_simps Fulfilled r teardown_failure_def)
    next
      case f: (Fulfilled v)
      have 3: "server_closed env r ?w2 = teardown_finish r None ?w2"
        by (simp add: server_closed_at [OF c2] f)
      show ?thesis
        by (simp add: on_close_def 1 2 3 teardown_finish_simps Fulfilled f teardown_failure_def)
    qed
  qed
qed

lemma on_close_events:
  assumes "requests w r = Some c" "close_registered c" "teardown_pc c = Open"
    and "ctx_transport c = Some t" "teardown_settles env"
  shows "events_of r (on_close server env r w) =
           events_of r w
           @ (case teardown_failure env of None \<Rightarrow> [] | Some e \<Rightarrow> [requestFailed r e])
           @ [requestCompleted r r]"
  unfolding events_of_append [OF on_close_log [OF assms]]
  by (simp split: promise.splits option.splits)

lemma handler_begin_registers:
  assumes "requests w r = None"
  shows "\<exists>c. requests (handler_begin server env r w) r = Some c \<and> teardown_pc c = Open
             \<and> (close_registered c \<longleftrightarrow>
                  on_emit env (requestReceived r) = None \<and> on_new_transport env = None)"
proof (cases "on_emit env (requestReceived r) = None \<and> on_new_transport env = None")
  case True
  then show ?thesis by (simp add: begin_ok(2) new_ctx_def)
next
  case False
  then obtain e where f: "on_emit env (requestReceived r) = Some e
           \<or> (on_emit env (requestReceived r) = None \<and> on_new_transport env = Some e)"
    by (cases "on_emit env (requestReceived r)"; cases "on_new_transport env") auto
  let ?w1 = "say r (Emit (requestReceived r)) (w\<lparr>requests := (requests w)(r \<mapsto> new_ctx)\<rparr>)"
  have c1: "requests ?w1 r = Some new_ctx" by simp
  show ?thesis
    unfolding begin_fails [OF f] handler_catch_ctx [OF c1]
    using False by (simp add: new_ctx_def split: option.splits)
qed

text \<open>
  Claim C7, as the code has it. In every world that an interleaving of request phases
  reaches, the completed event of a request has been emitted at most once. A request
  object that arrives gets its close handler exactly when the listeners of the received
  event and the transport constructor return. For a request with its close handler in
  place and its connection still open: when the connection closes and the close steps
  settle, whether they succeed or fail and whatever the listeners do, the completed
  event is emitted, once; and when a close step failed, the failed event carrying its
  error is emitted right before it.
\<close>

theorem completed_once_when_close_handler_registered:
  assumes "w = schedule server xs no_requests"
  shows "completions r w \<le> 1
         \<and> (requests w r = None \<longrightarrow>
              (\<exists>c. requests (handler_begin server env r w) r = Some c \<and> teardown_pc c = Open
                   \<and> (close_registered c \<longleftrightarrow>
                        on_emit env (requestReceived r) = None \<and> on_new_transport env = None)))
         \<and> (\<forall>c. requests w r = Some c \<and> close_registered c \<and> teardown_pc c = Open
                  \<and> teardown_settles env' \<longrightarrow>
                completions r w = 0
                \<and> completions r (on_close server env' r w) = 1
                \<and> events_of r (on_close server env' r w) =
                    events_of r w
                    @ (case teardown_failure env' of None \<Rightarrow> [] | Some e \<Rightarrow> [requestFailed r e])
                    @ [requestCompleted r r])"
proof -
  have s: "sound server w"
    unfolding assms by (rule schedule_sound [OF sound_no_requests])
  have a: "completions r w \<le> 1"
  proof (cases "requests w r")
    case None
    with soundD(1) [OF s] have "actions_of r (log w) = []" by simp
    then show ?thesis by (simp add: completions_def events_of_def)
  next
    case (Some c)
    with soundD(2) [OF s] have "completions r w = (if teardown_pc c = Completed then 1 else 0)"
      by simp
    then show ?thesis by simp
  qed
  have b: "completions r w = 0
                \<and> completions r (on_close server env' r w) = 1
                \<and> events_of r (on_close server env' r w) =
                    events_of r w
                    @ (case teardown_failure env' of None \<Rightarrow> [] | Some e \<Rightarrow> [requestFailed r e])
                    @ [requestCompleted r r]"
    if h: "requests w r = Some c \<and> close_registered c \<and> teardown_pc c = Open
                  \<and> teardown_settles env'" for c
  proof -
    from h have c: "requests w r = Some c" "close_registered c" "teardown_pc c = Open"
      "teardown_settles env'" by simp_all
    from soundD(3) [OF s c(1,2)] obtain t where t: "ctx_transport c = Some t" by auto
    from soundD(2) [OF s c(1)] c(3) have z: "completions r w = 0" by simp
    note ev = on_close_events [OF c(1-3) t c(4), of server]
    have "completions r (on_close server env' r w) = 1"
      using z unfolding completions_def ev by (simp split: option.splits)
    with z ev show ?thesis by simp
  qed
  from a b handler_begin_registers [of w r server env] show ?thesis by blast
qed

lemma one_request_ctx:
  "requests one_request 1 =
     Some (new_ctx\<lparr>ctx_transport := Some 0, close_registered := True, handler_pc := AwaitConnect\<rparr>)"
  by (simp add: one_request_def begin_ok(2) quiet_def no_requests_def)

lemma one_request_events: "events_of 1 one_request = [requestReceived 1]"
  by (simp add: one_request_def events_of_def begin_ok(1) quiet_def no_requests_def)

theorem completed_once_when_close_handler_registered_witness:
  "completions 1 one_request = 0
   \<and> teardown_settles engine_close_fails
   \<and> completions 1 (on_close 0 engine_close_fails 1 one_request) = 1
   \<and> events_of 1 (on_close 0 engine_close_fails 1 one_request) =
       [requestReceived 1, requestFailed 1 ''close failed'', requestCompleted 1 1]"
proof -
  let ?c = "new_ctx\<lparr>ctx_transport := Some 0, close_registered := True, handler_pc := AwaitConnect\<rparr>"
  have 1: "requests one_request 1 = Some ?c \<and> close_registered ?c \<and> teardown_pc ?c = Open
           \<and> teardown_settles engine_close_fails"
    using one_request_ctx
    by (simp add: new_ctx_def teardown_settles_def engine_close_fails_def quiet_def)
  have 2: "teardown_failure engine_close_fails = Some ''close failed''"
    by (simp add: teardown_failure_def engine_close_fails_def quiet_def)
  from completed_once_when_close_handler_registered [OF one_request_def, of 1 quiet engine_close_fails] 1
  have "completions 1 one_request = 0
        \<and> completions 1 (on_close 0 engine_close_fails 1 one_request) = 1
        \<and> events_of 1 (on_close 0 engine_close_fails 1 one_request) =
            events_of 1 one_request
            @ (case teardown_failure engine_close_fails of None \<Rightarrow> []
               | Some e \<Rightarrow> [requestFailed 1 e])
            @ [requestCompleted 1 1]"
    by blast
  with 1 2 one_request_events show ?thesis by simp
qed

text \<open>
  Claim C7 as stated fails: a listener of the received event throws, so the handler goes
  to its \<^verbatim>\<open>catch\<close> block before the close handler is registered. The connection closes,
  the close steps would succeed, and no completed event is ever emitted for the request.
\<close>

theorem no_completion_without_close_handler_counterexample:
  "teardown_settles quiet
   \<and> events_of 1 (on_close 0 quiet 1 (createMcpRequestHandler 0 received_listener_throws 1 no_requests))
       = [requestReceived 1, requestFailed 1 ''listener failed'']
   \<and> completions 1 (on_close 0 quiet 1
        (createMcpRequestHandler 0 received_listener_throws 1 no_requests)) = 0"
proof -
  let ?w1 = "say 1 (Emit (requestReceived 1))
               (no_requests\<lparr>requests := (requests no_requests)(1 \<mapsto> new_ctx)\<rparr>)"
  let ?w = "createMcpRequestHandler 0 received_listener_throws 1 no_requests"
  have f: "on_emit received_listener_throws (requestReceived 1) = Some ''listener failed''
           \<or> (on_emit received_listener_throws (requestReceived 1) = None
               \<and> on_new_transport received_listener_throws = Some ''listener failed'')"
    by (simp add: received_listener_throws_def quiet_def)
  have w: "?w = handler_catch received_listener_throws 1 ''listener failed'' ?w1"
    by (rule handler_begin_fails [OF f])
  have c1: "requests ?w1 1 = Some new_ctx" by simp
  have c: "requests ?w 1 =
             Some (new_ctx\<lparr>headersSent := True, replied := Some (500, internal_error),
                           handler_pc := Returned\<rparr>)"
    unfolding w handler_catch_ctx [OF c1]
    by (simp add: received_listener_throws_def quiet_def new_ctx_def)
  have l: "log ?w = [(1, Emit (requestReceived 1)), (1, Emit (requestFailed 1 ''listener failed'')),
                     (1, Respond 1 500 internal_error)]"
    unfolding w handler_catch_log
    by (simp add: received_listener_throws_def quiet_def new_ctx_def no_requests_def)
  have same: "on_close 0 quiet 1 ?w = ?w"
    using c
    by (simp add: on_close_def close_event_def transport_closed_def server_closed_def new_ctx_def)
  have e: "events_of 1 ?w = [requestReceived 1, requestFailed 1 ''listener failed'']"
    using l by (simp add: events_of_def)
  have "teardown_settles quiet" by (simp add: teardown_settles_def quiet_def)
  with e same show ?thesis by (simp add: completions_def)
qed

end
